theory Spec2Isabelle
  imports
    Main
    "HOL-Library.Word"
    "HOL-Library.Char_ord"
    "HOL-Library.List_Lexorder"
begin

unbundle bit_operations_syntax

section \<open>The standard-library hash object \<^verbatim>\<open>hashlib.md5\<close>\<close>

text \<open>
  Every script of the repository fingerprints a file with \<^verbatim>\<open>hashlib.md5()\<close>, feeding it with
  \<^verbatim>\<open>update(chunk)\<close> and reading the result with \<^verbatim>\<open>hexdigest()\<close>. The hash object is part of
  the Python standard library, not of the repository; it is modelled here after RFC 1321 as a
  streaming object: a chaining value of four 32-bit words, the bytes that do not yet fill a
  64-byte block, and the number of bytes fed so far. The 32-bit words are natural numbers with
  the wrap-around written out (\<open>mod 2 ^ 32\<close>).
\<close>

type_synonym byte = "8 word"

definition md5_K :: "nat list" where
  "md5_K =
   [0xd76aa478, 0xe8c7b756, 0x242070db, 0xc1bdceee,
    0xf57c0faf, 0x4787c62a, 0xa8304613, 0xfd469501,
    0x698098d8, 0x8b44f7af, 0xffff5bb1, 0x895cd7be,
    0x6b901122, 0xfd987193, 0xa679438e, 0x49b40821,
    0xf61e2562, 0xc040b340, 0x265e5a51, 0xe9b6c7aa,
    0xd62f105d, 0x02441453, 0xd8a1e681, 0xe7d3fbc8,
    0x21e1cde6, 0xc33707d6, 0xf4d50d87, 0x455a14ed,
    0xa9e3e905, 0xfcefa3f8, 0x676f02d9, 0x8d2a4c8a,
    0xfffa3942, 0x8771f681, 0x6d9d6122, 0xfde5380c,
    0xa4beea44, 0x4bdecfa9, 0xf6bb4b60, 0xbebfbc70,
    0x289b7ec6, 0xeaa127fa, 0xd4ef3085, 0x04881d05,
    0xd9d4d039, 0xe6db99e5, 0x1fa27cf8, 0xc4ac5665,
    0xf4292244, 0x432aff97, 0xab9423a7, 0xfc93a039,
    0x655b59c3, 0x8f0ccc92, 0xffeff47d, 0x85845dd1,
    0x6fa87e4f, 0xfe2ce6e0, 0xa3014314, 0x4e0811a1,
    0xf7537e82, 0xbd3af235, 0x2ad7d2bb, 0xeb86d391]"

definition md5_S :: "nat list" where
  "md5_S =
   [7, 12, 17, 22, 7, 12, 17, 22, 7, 12, 17, 22, 7, 12, 17, 22,
    5, 9, 14, 20, 5, 9, 14, 20, 5, 9, 14, 20, 5, 9, 14, 20,
    4, 11, 16, 23, 4, 11, 16, 23, 4, 11, 16, 23, 4, 11, 16, 23,
    6, 10, 15, 21, 6, 10, 15, 21, 6, 10, 15, 21, 6, 10, 15, 21]"

definition add32 :: "nat \<Rightarrow> nat \<Rightarrow> nat" where
  "add32 x y = (x + y) mod 4294967296"

definition not32 :: "nat \<Rightarrow> nat" where
  "not32 x = 4294967295 - x mod 4294967296"

definition rotl32 :: "nat \<Rightarrow> nat \<Rightarrow> nat" where
  "rotl32 x n = (x * 2 ^ n) mod 4294967296 + (x mod 4294967296) div 2 ^ (32 - n)"

text \<open>The sixteen little-endian 32-bit words of a 64-byte block.\<close>

fun words_of :: "byte list \<Rightarrow> nat list" where
  "words_of (a # b # c # d # rest) =
     (unat a + 256 * unat b + 65536 * unat c + 16777216 * unat d) # words_of rest"
| "words_of _ = []"

definition md5_mix :: "nat \<Rightarrow> nat \<Rightarrow> nat \<Rightarrow> nat \<Rightarrow> nat" where
  "md5_mix i b c d =
     (if i < 16 then (b AND c) OR (not32 b AND d)
      else if i < 32 then (d AND b) OR (not32 d AND c)
      else if i < 48 then b XOR c XOR d
      else c XOR (b OR not32 d))"

definition md5_idx :: "nat \<Rightarrow> nat" where
  "md5_idx i =
     (if i < 16 then i
      else if i < 32 then (5 * i + 1) mod 16
      else if i < 48 then (3 * i + 5) mod 16
      else (7 * i) mod 16)"

type_synonym md5_chain = "nat \<times> nat \<times> nat \<times> nat"

fun md5_step :: "nat list \<Rightarrow> md5_chain \<Rightarrow> nat \<Rightarrow> md5_chain" where
  "md5_step m (a, b, c, d) i =
     (d,
      add32 b (rotl32 (add32 (add32 (add32 (md5_mix i b c d) a) (md5_K ! i)) (m ! md5_idx i))
                 (md5_S ! i)),
      b, c)"

definition md5_compress :: "md5_chain \<Rightarrow> byte list \<Rightarrow> md5_chain" where
  "md5_compress h block =
     (case h of (a0, b0, c0, d0) \<Rightarrow>
        (case foldl (md5_step (words_of block)) h [0..<64] of (a, b, c, d) \<Rightarrow>
           (add32 a0 a, add32 b0 b, add32 c0 c, add32 d0 d)))"

definition md5_iv :: md5_chain where
  "md5_iv = (0x67452301, 0xefcdab89, 0x98badcfe, 0x10325476)"

text \<open>Compress every full 64-byte block of the input; return the bytes left over.\<close>

function md5_absorb :: "md5_chain \<Rightarrow> byte list \<Rightarrow> md5_chain \<times> byte list" where
  "md5_absorb h bs =
     (if 64 \<le> length bs then md5_absorb (md5_compress h (take 64 bs)) (drop 64 bs)
      else (h, bs))"
  by pat_completeness auto
termination
  by (relation "measure (\<lambda>(h, bs). length bs)") auto

declare md5_absorb.simps [simp del]

definition le_bytes :: "nat \<Rightarrow> nat \<Rightarrow> byte list" where
  "le_bytes k n = map (\<lambda>i. of_nat ((n div 256 ^ i) mod 256)) [0..<k]"

definition md5_pad :: "byte list \<Rightarrow> nat \<Rightarrow> byte list" where
  "md5_pad rest n =
     rest @ [0x80] @ replicate ((119 - length rest) mod 64) 0 @ le_bytes 8 ((8 * n) mod 2 ^ 64)"

record md5_obj =
  chaining :: md5_chain
  pending :: "byte list"
  fed :: nat

text \<open>\<^verbatim>\<open>hashlib.md5()\<close>\<close>

definition md5_new :: md5_obj where
  "md5_new = \<lparr>chaining = md5_iv, pending = [], fed = 0\<rparr>"

text \<open>\<^verbatim>\<open>h.update(bs)\<close>\<close>

definition md5_update :: "md5_obj \<Rightarrow> byte list \<Rightarrow> md5_obj" where
  "md5_update h bs =
     (case md5_absorb (chaining h) (pending h @ bs) of (c, r) \<Rightarrow>
        \<lparr>chaining = c, pending = r, fed = fed h + length bs\<rparr>)"

text \<open>\<^verbatim>\<open>h.digest()\<close>: pad, compress the last blocks, emit the chaining value little-endian.\<close>

definition md5_digest :: "md5_obj \<Rightarrow> byte list" where
  "md5_digest h =
     (case fst (md5_absorb (chaining h) (md5_pad (pending h) (fed h))) of (a, b, c, d) \<Rightarrow>
        concat (map (le_bytes 4) [a, b, c, d]))"

definition hex_digit :: "nat \<Rightarrow> char" where
  "hex_digit n = ''0123456789abcdef'' ! (n mod 16)"

definition hex_byte :: "byte \<Rightarrow> string" where
  "hex_byte b = [hex_digit (unat b div 16), hex_digit (unat b mod 16)]"

text \<open>\<^verbatim>\<open>h.hexdigest()\<close>\<close>

definition md5_hexdigest :: "md5_obj \<Rightarrow> string" where
  "md5_hexdigest h = concat (map hex_byte (md5_digest h))"

text \<open>\<^verbatim>\<open>hashlib.md5(bs).hexdigest()\<close>: the digest of a byte string hashed in one step.\<close>

definition md5_hex :: "byte list \<Rightarrow> string" where
  "md5_hex bs = md5_hexdigest (md5_update md5_new bs)"

definition is_hex_char :: "char \<Rightarrow> bool" where
  "is_hex_char c = (c \<in> set ''0123456789abcdef'')"

section \<open>Output and exceptions\<close>

text \<open>
  What a run shows to the outside, in order: one constructor for each kind of message that the
  two scripts print and for each call of an external collaborator (\<^verbatim>\<open>os.makedirs\<close>,
  \<^verbatim>\<open>export_to_excel\<close>). The six lines with which \<^verbatim>\<open>main\<close> announces its arguments are the
  one event \<open>MsgHeader\<close>; the wording of the messages is not modelled.
\<close>

type_synonym path = string

datatype event =
    MsgMd5Failed path
  | MsgCannotRead path
  | MsgScanning path
  | MsgProcessed nat
  | MsgScanDone nat nat
  | MsgScanned nat
  | MsgScanFinished nat
  | MsgRule
  | MsgStartScan
  | MsgFoundCommon nat
  | MsgErrNoDir path
  | MsgErrNotExists path
  | MsgErrNotDir path
  | MakeDirs path
  | MsgCreatedDir path
  | MsgHeader path path path
  | ExportToExcel "(string \<times> path list \<times> path list) list" path path path
  | MsgDone
  | MsgNoMatches

text \<open>
  The exceptions that the scripts meet. \<^verbatim>\<open>UnicodeEncodeError\<close> is what \<^verbatim>\<open>print\<close> raises for
  a text that the encoding of standard output cannot represent.
\<close>

datatype py_exception = OSError | KeyError | UnicodeEncodeError | SystemExit int

text \<open>
  A computation either returns a value or leaves with an exception, and has printed
  something either way.
\<close>

type_synonym 'a run = "(py_exception + 'a) \<times> event list"

definition ret :: "'a \<Rightarrow> 'a run" where
  "ret x = (Inr x, [])"

definition raise :: "py_exception \<Rightarrow> 'a run" where
  "raise e = (Inl e, [])"

definition then_run :: "'a run \<Rightarrow> ('a \<Rightarrow> 'b run) \<Rightarrow> 'b run" where
  "then_run m f =
     (case m of
        (Inl e, ev) \<Rightarrow> (Inl e, ev)
      | (Inr x, ev) \<Rightarrow> (case f x of (r, ev') \<Rightarrow> (r, ev @ ev')))"

text \<open>A call of a collaborator that succeeds, as it is seen from outside.\<close>

definition observe :: "event \<Rightarrow> unit run" where
  "observe e = (Inr (), [e])"

text \<open>
  The exit status of the process: 0 when \<^verbatim>\<open>main\<close> returns, the argument of \<^verbatim>\<open>sys.exit\<close>,
  and 1 for any other exception that nothing catches.
\<close>

definition exit_status :: "'a run \<Rightarrow> int" where
  "exit_status r =
     (case fst r of Inr _ \<Rightarrow> 0 | Inl (SystemExit n) \<Rightarrow> n | Inl _ \<Rightarrow> 1)"

section \<open>The operating system as the scripts see it\<close>

text \<open>
  The scripts reach the file system through \<^verbatim>\<open>os.path.exists\<close>, \<^verbatim>\<open>os.path.isdir\<close>,
  \<^verbatim>\<open>os.path.abspath\<close>, \<^verbatim>\<open>os.path.join\<close>, \<^verbatim>\<open>os.walk\<close> and \<^verbatim>\<open>open(path, 'rb')\<close>. These are
  parameters of the model. A file carries its bytes, metadata that the fingerprint must not
  depend on, and a possible read fault: \<open>Some k\<close> says that the call of \<^verbatim>\<open>read\<close> after \<open>k\<close>
  successful ones raises (the file vanished or the device failed in the middle of the scan).
  A path that \<open>files\<close> maps to \<open>None\<close> cannot be opened. Two fields say whether
  \<^verbatim>\<open>os.makedirs\<close> and the spreadsheet renderer succeed or raise, and the last one which
  messages standard output takes: a message with a file name that the encoding of the stream
  cannot represent is not among them.
\<close>

record file_node =
  content :: "byte list"
  mtime :: int
  perm :: nat
  read_fault :: "nat option"

record os_env =
  path_exists :: "path \<Rightarrow> bool"
  path_isdir :: "path \<Rightarrow> bool"
  abspath :: "path \<Rightarrow> path"
  path_join :: "path \<Rightarrow> string \<Rightarrow> path"
  walk :: "path \<Rightarrow> (path \<times> string list \<times> string list) list"
  files :: "path \<Rightarrow> file_node option"
  dirname :: "path \<Rightarrow> path"
  makedirs_ok :: "path \<Rightarrow> bool"
  export_ok :: "(string \<times> path list \<times> path list) list \<Rightarrow> path \<Rightarrow> bool"
  stdout_accepts :: "event \<Rightarrow> bool"

record file_handle =
  unread :: "byte list"
  reads_left :: "nat option"

text \<open>\<^verbatim>\<open>open(file_path, 'rb')\<close>\<close>

definition os_open :: "os_env \<Rightarrow> path \<Rightarrow> py_exception + file_handle" where
  "os_open env p =
     (case files env p of
        None \<Rightarrow> Inl OSError
      | Some f \<Rightarrow> Inr \<lparr>unread = content f, reads_left = read_fault f\<rparr>)"

text \<open>\<^verbatim>\<open>f.read(n)\<close>: up to \<open>n\<close> bytes, fewer only at the end of the file.\<close>

definition fread :: "file_handle \<Rightarrow> nat \<Rightarrow> py_exception + (byte list \<times> file_handle)" where
  "fread f n =
     (if reads_left f = Some 0 then Inl OSError
      else Inr (take n (unread f),
                \<lparr>unread = drop n (unread f),
                 reads_left = map_option (\<lambda>k. k - 1) (reads_left f)\<rparr>))"

text \<open>
  \<^verbatim>\<open>print(message)\<close>: the message appears on standard output, or, when the stream cannot
  take it, nothing is written and the call raises. Nothing in the two scripts catches that
  exception: the only \<^verbatim>\<open>try\<close> is the one of \<^verbatim>\<open>calculate_md5\<close>, and the \<^verbatim>\<open>print\<close> of its
  handler stands outside the protected block.
\<close>

definition print :: "os_env \<Rightarrow> event \<Rightarrow> unit run" where
  "print env e = (if stdout_accepts env e then (Inr (), [e]) else raise UnicodeEncodeError)"

section \<open>Dictionaries\<close>

text \<open>
  A Python \<^verbatim>\<open>dict\<close> keeps its keys in insertion order: an association list, a new key going
  to the end and an assignment to a present key keeping its place.
\<close>

type_synonym ('k, 'v) dict = "('k \<times> 'v) list"

definition keys :: "('k, 'v) dict \<Rightarrow> 'k list" where
  "keys d = map fst d"

text \<open>\<^verbatim>\<open>k in d\<close>\<close>

definition has_key :: "('k, 'v) dict \<Rightarrow> 'k \<Rightarrow> bool" where
  "has_key d k = (k \<in> set (keys d))"

text \<open>\<^verbatim>\<open>d[k]\<close>, which raises \<^verbatim>\<open>KeyError\<close> for a missing key.\<close>

definition getitem :: "('k, 'v) dict \<Rightarrow> 'k \<Rightarrow> 'v run" where
  "getitem d k = (case map_of d k of None \<Rightarrow> raise KeyError | Some v \<Rightarrow> ret v)"

text \<open>\<^verbatim>\<open>d[k] = v\<close>\<close>

fun setitem :: "('k, 'v) dict \<Rightarrow> 'k \<Rightarrow> 'v \<Rightarrow> ('k, 'v) dict" where
  "setitem [] k v = [(k, v)]"
| "setitem ((k', v') # d) k v = (if k' = k then (k, v) # d else (k', v') # setitem d k v)"

text \<open>
  \<^verbatim>\<open>d[k]\<close> on a \<^verbatim>\<open>defaultdict(list)\<close>: a missing key is first stored with an empty list.
\<close>

definition dd_getitem :: "('k, 'v list) dict \<Rightarrow> 'k \<Rightarrow> ('k, 'v list) dict \<times> 'v list" where
  "dd_getitem d k = (case map_of d k of None \<Rightarrow> (setitem d k [], []) | Some v \<Rightarrow> (d, v))"

section \<open>Fingerprinting a file\<close>

text \<open>
  The loop \<^verbatim>\<open>for chunk in iter(lambda: f.read(4096), b''): md5_hash.update(chunk)\<close>: it reads
  until a read returns no bytes. It ends because every other read shortens what is unread.
\<close>

function read_chunks :: "file_handle \<Rightarrow> md5_obj \<Rightarrow> py_exception + md5_obj" where
  "read_chunks f h =
     (case fread f 4096 of
        Inl e \<Rightarrow> Inl e
      | Inr (chunk, f') \<Rightarrow>
          if chunk = [] then Inr h else read_chunks f' (md5_update h chunk))"
  by pat_completeness auto
termination
  by (relation "measure (\<lambda>(f, h). length (unread f))")
     (auto simp: fread_def split: if_splits)

declare read_chunks.simps [simp del]

text \<open>
  The body of the \<^verbatim>\<open>try\<close> block of \<^verbatim>\<open>calculate_md5\<close>, which is the same text in every
  script: open, hash chunk by chunk, return the hex digest. Leaving the \<^verbatim>\<open>with\<close> block closes
  the file on both paths.
\<close>

definition hash_file :: "os_env \<Rightarrow> path \<Rightarrow> py_exception + string" where
  "hash_file env file_path =
     (case os_open env file_path of
        Inl e \<Rightarrow> Inl e
      | Inr f \<Rightarrow>
          (case read_chunks f md5_new of
             Inl e \<Rightarrow> Inl e
           | Inr md5_hash \<Rightarrow> Inr (md5_hexdigest md5_hash)))"

text \<open>
  \<^verbatim>\<open>calculate_md5\<close> of compare_resources.py: the handler of \<^verbatim>\<open>except Exception\<close> prints the
  path and returns the empty string, which stands for a failure.
\<close>

definition calculate_md5 :: "os_env \<Rightarrow> path \<Rightarrow> string run" where
  "calculate_md5 env file_path =
     (case hash_file env file_path of
        Inr digest \<Rightarrow> ret digest
      | Inl e \<Rightarrow> then_run (print env (MsgMd5Failed file_path)) (\<lambda>_. ret []))"

text \<open>\<^verbatim>\<open>calculate_md5\<close> of find_duplicate_files_simple.py: \<^verbatim>\<open>None\<close> stands for a failure.\<close>

definition calculate_md5_simple :: "os_env \<Rightarrow> path \<Rightarrow> string option run" where
  "calculate_md5_simple env file_path =
     (case hash_file env file_path of
        Inr digest \<Rightarrow> ret (Some digest)
      | Inl e \<Rightarrow> then_run (print env (MsgCannotRead file_path)) (\<lambda>_. ret None))"

section \<open>compare_resources.py\<close>

type_synonym index = "(string, path list) dict"

text \<open>The body of the two nested loops of \<^verbatim>\<open>scan_directory\<close>, for one file.\<close>

definition scan_file :: "os_env \<Rightarrow> path \<Rightarrow> index \<times> nat \<Rightarrow> (index \<times> nat) run" where
  "scan_file env file_path st =
     (case st of (md5_dict, file_count) \<Rightarrow>
        then_run (calculate_md5 env file_path) (\<lambda>md5_value.
          if md5_value \<noteq> [] then
            (let md5_dict1 =
                   (if \<not> has_key md5_dict md5_value then setitem md5_dict md5_value []
                    else md5_dict)
             in then_run (getitem md5_dict1 md5_value) (\<lambda>paths.
                  let file_count1 = file_count + 1
                  in then_run
                       (if file_count1 mod 100 = 0 then print env (MsgProcessed file_count1)
                        else ret ())
                       (\<lambda>_. ret (setitem md5_dict1 md5_value (paths @ [file_path]),
                                 file_count1))))
          else ret (md5_dict, file_count)))"

fun scan_files :: "os_env \<Rightarrow> path \<Rightarrow> string list \<Rightarrow> index \<times> nat \<Rightarrow> (index \<times> nat) run" where
  "scan_files env root [] st = ret st"
| "scan_files env root (filename # rest) st =
     then_run (scan_file env (path_join env root filename) st) (scan_files env root rest)"

fun scan_walk ::
  "os_env \<Rightarrow> (path \<times> string list \<times> string list) list \<Rightarrow> index \<times> nat \<Rightarrow> (index \<times> nat) run"
where
  "scan_walk env [] st = ret st"
| "scan_walk env ((root, dirs, filenames) # rest) st =
     then_run (scan_files env root filenames st) (scan_walk env rest)"

definition scan_directory :: "os_env \<Rightarrow> path \<Rightarrow> index run" where
  "scan_directory env directory0 =
     (let directory = abspath env directory0
      in then_run (print env (MsgScanning directory)) (\<lambda>_.
         then_run (scan_walk env (walk env directory) ([], 0)) (\<lambda>(md5_dict, file_count).
         then_run (print env (MsgScanDone file_count (length md5_dict))) (\<lambda>_.
         ret md5_dict))))"

type_synonym results = "(string \<times> path list \<times> path list) list"

text \<open>The loop \<^verbatim>\<open>for md5_value in sorted(common_md5): results.append(...)\<close>.\<close>

fun build_results :: "index \<Rightarrow> index \<Rightarrow> string list \<Rightarrow> results \<Rightarrow> results run" where
  "build_results md5_dict1 md5_dict2 [] results = ret results"
| "build_results md5_dict1 md5_dict2 (md5_value # rest) results =
     then_run (getitem md5_dict1 md5_value) (\<lambda>files1.
     then_run (getitem md5_dict2 md5_value) (\<lambda>files2.
     build_results md5_dict1 md5_dict2 rest (results @ [(md5_value, files1, files2)])))"

text \<open>
  \<^verbatim>\<open>set(a) & set(b)\<close> is a set with no order of its own; \<^verbatim>\<open>sorted\<close> of it is the one
  ascending list of its elements, strings being compared character by character.
\<close>

definition compare_directories :: "os_env \<Rightarrow> path \<Rightarrow> path \<Rightarrow> results run" where
  "compare_directories env dir1 dir2 =
     then_run (print env MsgRule) (\<lambda>_.
     then_run (print env MsgStartScan) (\<lambda>_.
     then_run (print env MsgRule) (\<lambda>_.
     then_run (scan_directory env dir1) (\<lambda>md5_dict1.
     then_run (scan_directory env dir2) (\<lambda>md5_dict2.
       let common_md5 = set (keys md5_dict1) \<inter> set (keys md5_dict2)
       in then_run (print env (MsgFoundCommon (card common_md5))) (\<lambda>_.
          build_results md5_dict1 md5_dict2 (sorted_list_of_set common_md5) []))))))"

definition char_lower :: "char \<Rightarrow> char" where
  "char_lower c =
     (if CHR ''A'' \<le> c \<and> c \<le> CHR ''Z'' then char_of (of_char c + (32 :: nat)) else c)"

definition endswith :: "string \<Rightarrow> string \<Rightarrow> bool" where
  "endswith s suffix = (length suffix \<le> length s \<and> drop (length s - length suffix) s = suffix)"

text \<open>
  \<^verbatim>\<open>main\<close>, after \<^verbatim>\<open>argparse\<close> has delivered the three positional arguments. Returning from
  \<^verbatim>\<open>main\<close> ends the process with status 0.
\<close>

definition main :: "os_env \<Rightarrow> path \<Rightarrow> path \<Rightarrow> path \<Rightarrow> unit run" where
  "main env dir1 dir2 output0 =
     (if \<not> path_isdir env dir1 then print env (MsgErrNoDir dir1)
      else if \<not> path_isdir env dir2 then print env (MsgErrNoDir dir2)
      else
        (let output_dir = dirname env output0
         in then_run
              (if output_dir \<noteq> [] \<and> \<not> path_exists env output_dir then
                 (if makedirs_ok env output_dir then
                    then_run (observe (MakeDirs output_dir))
                      (\<lambda>_. print env (MsgCreatedDir output_dir))
                  else raise OSError)
               else ret ())
              (\<lambda>_.
                 let output = (if \<not> endswith (map char_lower output0) ''.xlsx''
                               then output0 @ ''.xlsx'' else output0)
                 in then_run (print env (MsgHeader dir1 dir2 output)) (\<lambda>_.
                    then_run (compare_directories env dir1 dir2) (\<lambda>results.
                      if results \<noteq> [] then
                        (if export_ok env results output then
                           then_run (observe (ExportToExcel results output dir1 dir2))
                             (\<lambda>_. print env MsgDone)
                         else raise OSError)
                      else print env MsgNoMatches)))))"

section \<open>find_duplicate_files_simple.py\<close>

text \<open>The body of the two nested loops of \<^verbatim>\<open>find_duplicate_files\<close>, for one file.\<close>

definition scan_file_simple :: "os_env \<Rightarrow> path \<Rightarrow> index \<times> nat \<Rightarrow> (index \<times> nat) run" where
  "scan_file_simple env file_path st =
     (case st of (md5_dict, file_count) \<Rightarrow>
        let file_count1 = file_count + 1
        in then_run
             (if file_count1 mod 100 = 0 then print env (MsgScanned file_count1) else ret ())
             (\<lambda>_.
        then_run (calculate_md5_simple env file_path) (\<lambda>md5_value.
          case md5_value of
            None \<Rightarrow> ret (md5_dict, file_count1)
          | Some digest \<Rightarrow>
              if digest \<noteq> [] then
                (case dd_getitem md5_dict digest of (md5_dict1, paths) \<Rightarrow>
                   ret (setitem md5_dict1 digest (paths @ [file_path]), file_count1))
              else ret (md5_dict, file_count1))))"

fun scan_files_simple ::
  "os_env \<Rightarrow> path \<Rightarrow> string list \<Rightarrow> index \<times> nat \<Rightarrow> (index \<times> nat) run"
where
  "scan_files_simple env root [] st = ret st"
| "scan_files_simple env root (filename # rest) st =
     then_run (scan_file_simple env (path_join env root filename) st)
       (scan_files_simple env root rest)"

fun scan_walk_simple ::
  "os_env \<Rightarrow> (path \<times> string list \<times> string list) list \<Rightarrow> index \<times> nat \<Rightarrow> (index \<times> nat) run"
where
  "scan_walk_simple env [] st = ret st"
| "scan_walk_simple env ((root, dirs, filenames) # rest) st =
     then_run (scan_files_simple env root filenames st) (scan_walk_simple env rest)"

text \<open>
  The first part of \<^verbatim>\<open>find_duplicate_files\<close> after the checks of the root: the scan that
  fills the dictionary, before the groups of one file are filtered out.
\<close>

definition scan_simple :: "os_env \<Rightarrow> path \<Rightarrow> (index \<times> nat) run" where
  "scan_simple env directory =
     then_run (print env (MsgScanning directory)) (\<lambda>_.
       scan_walk_simple env (walk env directory) ([], 0))"

definition find_duplicate_files :: "os_env \<Rightarrow> path \<Rightarrow> index run" where
  "find_duplicate_files env directory =
     (if \<not> path_exists env directory then
        then_run (print env (MsgErrNotExists directory)) (\<lambda>_. raise (SystemExit 1))
      else if \<not> path_isdir env directory then
        then_run (print env (MsgErrNotDir directory)) (\<lambda>_. raise (SystemExit 1))
      else
        then_run (scan_simple env directory) (\<lambda>(md5_dict, file_count).
        then_run (print env (MsgScanFinished file_count)) (\<lambda>_.
        ret (filter (\<lambda>(md5, paths). length paths > 1) md5_dict))))"

section \<open>Notions used to state the properties\<close>

text \<open>The paths that the two nested loops over \<^verbatim>\<open>os.walk(directory)\<close> visit, in order.\<close>

definition walked_paths :: "os_env \<Rightarrow> path \<Rightarrow> path list" where
  "walked_paths env directory =
     concat (map (\<lambda>(root, dirs, filenames). map (path_join env root) filenames)
       (walk env directory))"

text \<open>The paths among \<open>ps\<close> whose fingerprinting succeeds with digest \<open>d\<close>, in order.\<close>

definition group_of :: "os_env \<Rightarrow> path list \<Rightarrow> string \<Rightarrow> path list" where
  "group_of env ps d = filter (\<lambda>p. hash_file env p = Inr d) ps"

text \<open>The digests of the files among \<open>ps\<close> that can be fingerprinted, in order.\<close>

definition digests :: "os_env \<Rightarrow> path list \<Rightarrow> string list" where
  "digests env ps = concat (map (\<lambda>p. case hash_file env p of Inr s \<Rightarrow> [s] | Inl _ \<Rightarrow> []) ps)"

text \<open>The elements of a list in the order of their first occurrence.\<close>

definition first_seen :: "'a list \<Rightarrow> 'a list" where
  "first_seen xs = rev (remdups (rev xs))"

text \<open>What one file does to the dictionary of a scan, and what a list of files does.\<close>

definition index_step :: "os_env \<Rightarrow> index \<Rightarrow> path \<Rightarrow> index" where
  "index_step env d p =
     (case hash_file env p of
        Inl _ \<Rightarrow> d
      | Inr s \<Rightarrow> setitem d s ((case map_of d s of None \<Rightarrow> [] | Some ps \<Rightarrow> ps) @ [p]))"

definition index_of :: "os_env \<Rightarrow> path list \<Rightarrow> index" where
  "index_of env ps = foldl (index_step env) [] ps"

text \<open>A path occurs in some group of the index.\<close>

definition in_index :: "index \<Rightarrow> path \<Rightarrow> bool" where
  "in_index idx p = (p \<in> set (concat (map snd idx)))"

text \<open>
  Standard output takes every message, as a stream does whose encoding represents every file
  name of the trees.
\<close>

definition stdout_ok :: "os_env \<Rightarrow> bool" where
  "stdout_ok env = (\<forall>e. stdout_accepts env e)"

subsection \<open>A small example\<close>

text \<open>
  Three trees. \<^verbatim>\<open>A\<close> holds two empty files, two files with the one byte \<^verbatim>\<open>a\<close>, a name that
  cannot be opened and a file whose second read fails; \<^verbatim>\<open>B\<close> holds one file with the byte \<^verbatim>\<open>a\<close>
  and one empty file. The modification times all differ. \<^verbatim>\<open>U\<close> holds an entry that cannot be
  opened and whose name ends with the byte \<^verbatim>\<open>0xFF\<close>, which is not valid text in UTF-8, and
  after it a file with the byte \<^verbatim>\<open>a\<close>.
\<close>

definition bad_name :: string where
  "bad_name = ''bad'' @ [CHR 0xFF]"

definition demo_file :: "byte list \<Rightarrow> int \<Rightarrow> file_node" where
  "demo_file bs t = \<lparr>content = bs, mtime = t, perm = 420, read_fault = None\<rparr>"

definition demo_files :: "(path \<times> file_node) list" where
  "demo_files =
     [(''A/e1'', demo_file [] 1),
      (''A/x'', demo_file [0x61] 2),
      (''A/torn'', \<lparr>content = [0x61], mtime = 3, perm = 420, read_fault = Some 1\<rparr>),
      (''A/sub/e2'', demo_file [] 4),
      (''A/sub/y'', demo_file [0x61] 5),
      (''B/z'', demo_file [0x61] 6),
      (''B/e3'', demo_file [] 7),
      (''U/ok'', demo_file [0x61] 8)]"

definition demo_walk :: "(path \<times> (path \<times> string list \<times> string list) list) list" where
  "demo_walk =
     [(''A'', [(''A'', [''sub''], [''e1'', ''x'', ''gone'', ''torn'']),
               (''A/sub'', [], [''e2'', ''y''])]),
      (''B'', [(''B'', [], [''z'', ''e3''])]),
      (''U'', [(''U'', [], [bad_name, ''ok''])])]"

definition demo_env :: os_env where
  "demo_env =
     \<lparr>path_exists =
        (\<lambda>p. p \<in> set [''A'', ''A/sub'', ''B'', ''U''] \<or> map_of demo_files p \<noteq> None),
      path_isdir = (\<lambda>p. p \<in> set [''A'', ''A/sub'', ''B'', ''U'']),
      abspath = (\<lambda>p. p),
      path_join = (\<lambda>root name. root @ ''/'' @ name),
      walk = (\<lambda>p. case map_of demo_walk p of None \<Rightarrow> [] | Some w \<Rightarrow> w),
      files = map_of demo_files,
      dirname = (\<lambda>p. []),
      makedirs_ok = (\<lambda>p. True),
      export_ok = (\<lambda>r p. True),
      stdout_accepts = (\<lambda>e. True)\<rparr>"

text \<open>
  The same file system seen through a standard output in UTF-8, which raises for a text with
  the byte \<^verbatim>\<open>0xFF\<close>. The names that a message shows:
\<close>

fun event_paths :: "event \<Rightarrow> path list" where
  "event_paths (MsgMd5Failed p) = [p]"
| "event_paths (MsgCannotRead p) = [p]"
| "event_paths (MsgScanning p) = [p]"
| "event_paths (MsgErrNoDir p) = [p]"
| "event_paths (MsgErrNotExists p) = [p]"
| "event_paths (MsgErrNotDir p) = [p]"
| "event_paths (MsgCreatedDir p) = [p]"
| "event_paths (MsgHeader p1 p2 p3) = [p1, p2, p3]"
| "event_paths e = []"

definition utf8_stdout :: "event \<Rightarrow> bool" where
  "utf8_stdout e = (CHR 0xFF \<notin> set (concat (event_paths e)))"

definition utf8_env :: os_env where
  "utf8_env = demo_env\<lparr>stdout_accepts := utf8_stdout\<rparr>"

definition digest_empty :: string where
  "digest_empty = ''d41d8cd98f00b204e9800998ecf8427e''"

definition digest_a :: string where
  "digest_a = ''0cc175b9c0f1b6a831c399e269772661''"

section \<open>The hash object accumulates\<close>

lemma md5_absorb_short: "length bs < 64 \<Longrightarrow> md5_absorb h bs = (h, bs)"
  by (subst md5_absorb.simps) simp

lemma md5_absorb_rest_short: "length (snd (md5_absorb h bs)) < 64"
proof (induction h bs rule: md5_absorb.induct)
  case (1 h bs)
  show ?case
  proof (cases "64 \<le> length bs")
    case True
    with 1 show ?thesis by (subst md5_absorb.simps) simp
  next
    case False
    then show ?thesis by (subst md5_absorb.simps) simp
  qed
qed

lemma md5_absorb_append:
  "md5_absorb h (xs @ ys) = (case md5_absorb h xs of (h', r) \<Rightarrow> md5_absorb h' (r @ ys))"
proof (induction h xs rule: md5_absorb.induct)
  case (1 h bs)
  show ?case
  proof (cases "64 \<le> length bs")
    case True
    then have "md5_absorb h (bs @ ys) =
        md5_absorb (md5_compress h (take 64 bs)) (drop 64 bs @ ys)"
      by (subst md5_absorb.simps) simp
    also have "\<dots> = (case md5_absorb (md5_compress h (take 64 bs)) (drop 64 bs) of
        (h', r) \<Rightarrow> md5_absorb h' (r @ ys))"
      using 1 True by simp
    also have "md5_absorb (md5_compress h (take 64 bs)) (drop 64 bs) = md5_absorb h bs"
      using True by (subst (2) md5_absorb.simps) simp
    finally show ?thesis .
  next
    case False
    then show ?thesis by (simp add: md5_absorb_short)
  qed
qed

lemma md5_update_update: "md5_update (md5_update h a) b = md5_update h (a @ b)"
proof -
  have "md5_absorb (chaining h) ((pending h @ a) @ b) =
      (case md5_absorb (chaining h) (pending h @ a) of (h', r) \<Rightarrow> md5_absorb h' (r @ b))"
    by (rule md5_absorb_append)
  then show ?thesis
    by (simp add: md5_update_def split: prod.splits)
qed

lemma pending_md5_update: "length (pending (md5_update h bs)) < 64"
  using md5_absorb_rest_short [of "chaining h" "pending h @ bs"]
  by (cases "md5_absorb (chaining h) (pending h @ bs)") (simp add: md5_update_def)

lemma md5_update_Nil: "length (pending h) < 64 \<Longrightarrow> md5_update h [] = h"
  by (simp add: md5_update_def md5_absorb_short)

lemma pending_md5_new: "length (pending md5_new) < 64"
  by (simp add: md5_new_def)

lemma foldl_md5_update:
  "length (pending h) < 64 \<Longrightarrow> foldl md5_update h cs = md5_update h (concat cs)"
proof (induction cs arbitrary: h)
  case Nil
  then show ?case by (simp add: md5_update_Nil)
next
  case (Cons c cs)
  have "foldl md5_update (md5_update h c) cs = md5_update (md5_update h c) (concat cs)"
    by (rule Cons.IH) (rule pending_md5_update)
  then show ?case by (simp add: md5_update_update)
qed

lemma read_chunks_result:
  "length (pending h) < 64 \<Longrightarrow> read_chunks f h = Inr h' \<Longrightarrow> h' = md5_update h (unread f)"
proof (induction f h rule: read_chunks.induct)
  case (1 f h)
  from "1.prems"(2) obtain chunk f' where rd: "fread f 4096 = Inr (chunk, f')"
    by (subst (asm) read_chunks.simps) (auto split: sum.splits)
  then have chunk: "chunk = take 4096 (unread f)" and rest: "unread f' = drop 4096 (unread f)"
    by (auto simp: fread_def split: if_splits)
  show ?case
  proof (cases "chunk = []")
    case True
    with rd "1.prems"(2) have "h' = h"
      by (subst (asm) read_chunks.simps) simp
    moreover from True chunk have "unread f = []" by simp
    ultimately show ?thesis using "1.prems"(1) by (simp add: md5_update_Nil)
  next
    case False
    with rd "1.prems"(2) have "read_chunks f' (md5_update h chunk) = Inr h'"
      by (subst (asm) read_chunks.simps) simp
    with "1.IH" [OF rd refl False pending_md5_update]
    have "h' = md5_update (md5_update h chunk) (unread f')" by simp
    then show ?thesis
      by (simp add: md5_update_update chunk rest)
  qed
qed

lemma read_chunks_total:
  "reads_left f = None \<Longrightarrow> \<exists>h'. read_chunks f h = Inr h'"
proof (induction f h rule: read_chunks.induct)
  case (1 f h)
  define chunk where "chunk = take 4096 (unread f)"
  define f' where "f' = \<lparr>unread = drop 4096 (unread f), reads_left = None\<rparr>"
  have rd: "fread f 4096 = Inr (chunk, f')"
    using "1.prems" by (simp add: fread_def chunk_def f'_def)
  show ?case
  proof (cases "chunk = []")
    case True
    with rd show ?thesis by (subst read_chunks.simps) simp
  next
    case False
    have "reads_left f' = None" by (simp add: f'_def)
    from "1.IH" [OF rd refl False this]
    show ?thesis using rd False by (subst read_chunks.simps) simp
  qed
qed

lemma hash_file_Inr:
  "hash_file env p = Inr s \<Longrightarrow> \<exists>f. files env p = Some f \<and> s = md5_hex (content f)"
  by (auto simp: hash_file_def os_open_def md5_hex_def pending_md5_new
      split: option.splits sum.splits dest!: read_chunks_result [rotated])

lemma hash_file_readable:
  "files env p = Some f \<Longrightarrow> read_fault f = None \<Longrightarrow> hash_file env p = Inr (md5_hex (content f))"
proof -
  assume f: "files env p = Some f" and r: "read_fault f = None"
  let ?h = "\<lparr>unread = content f, reads_left = read_fault f\<rparr>"
  from r obtain h' where h': "read_chunks ?h md5_new = Inr h'"
    using read_chunks_total [of ?h md5_new] by auto
  then have "hash_file env p = Inr (md5_hexdigest h')"
    using f by (simp add: hash_file_def os_open_def)
  then show ?thesis using hash_file_Inr [of env p] f by auto
qed

lemma length_le_bytes: "length (le_bytes k n) = k"
  by (simp add: le_bytes_def)

lemma length_md5_digest: "length (md5_digest h) = 16"
  by (simp add: md5_digest_def length_le_bytes split: prod.splits)

lemma length_concat_hex: "length (concat (map hex_byte bs)) = 2 * length bs"
  by (induction bs) (simp_all add: hex_byte_def)

lemma length_md5_hexdigest: "length (md5_hexdigest h) = 32"
  by (simp add: md5_hexdigest_def length_concat_hex length_md5_digest)

lemma is_hex_digit: "is_hex_char (hex_digit n)"
proof -
  have "n mod 16 < length ''0123456789abcdef''" by simp
  then have "''0123456789abcdef'' ! (n mod 16) \<in> set ''0123456789abcdef''"
    by (rule nth_mem)
  then show ?thesis by (simp only: is_hex_char_def hex_digit_def)
qed

lemma hex_md5_hexdigest: "c \<in> set (md5_hexdigest h) \<Longrightarrow> is_hex_char c"
  by (auto simp: md5_hexdigest_def hex_byte_def is_hex_digit)


section \<open>What a run returns\<close>

lemma fst_ret: "fst (ret x) = Inr x"
  by (simp add: ret_def)

lemma fst_raise: "fst (raise e) = Inl e"
  by (simp add: raise_def)

lemma fst_observe: "fst (observe e) = Inr ()"
  by (simp add: observe_def)

lemma fst_print:
  "fst (print env e) = (if stdout_accepts env e then Inr () else Inl UnicodeEncodeError)"
  by (simp add: print_def raise_def)

lemma fst_then_run:
  "fst (then_run m f) = (case fst m of Inl e \<Rightarrow> Inl e | Inr x \<Rightarrow> fst (f x))"
  by (cases m) (auto simp: then_run_def split: sum.splits prod.splits)

lemmas fst_run = fst_ret fst_raise fst_observe fst_print fst_then_run

lemma print_accepted: "stdout_accepts env e \<Longrightarrow> print env e = (Inr (), [e])"
  by (simp add: print_def)

lemma print_refused: "\<not> stdout_accepts env e \<Longrightarrow> print env e = (Inl UnicodeEncodeError, [])"
  by (simp add: print_def raise_def)

lemma stdout_okD: "stdout_ok env \<Longrightarrow> stdout_accepts env e"
  by (simp add: stdout_ok_def)

section \<open>What a scan builds\<close>

lemma map_of_setitem: "map_of (setitem d k v) = (map_of d)(k \<mapsto> v)"
  by (induction d) (auto simp: fun_eq_iff)

lemma keys_setitem:
  "keys (setitem d k v) = (if k \<in> set (keys d) then keys d else keys d @ [k])"
proof (induction d)
  case Nil
  then show ?case by (simp add: keys_def)
next
  case (Cons x d)
  obtain k' v' where x: "x = (k', v')" by (cases x)
  show ?case using Cons by (auto simp: keys_def x)
qed

lemma setitem_setitem: "setitem (setitem d k u) k v = setitem d k v"
  by (induction d) auto

lemma has_key_map_of: "has_key d k \<longleftrightarrow> map_of d k \<noteq> None"
  by (simp add: has_key_def keys_def map_of_eq_None_iff)

lemma hash_file_nonempty: "hash_file env p = Inr s \<Longrightarrow> s \<noteq> []"
proof -
  assume "hash_file env p = Inr s"
  then have "length s = 32"
    by (auto simp: hash_file_def length_md5_hexdigest split: sum.splits)
  then show ?thesis by auto
qed

lemma fst_calculate_md5:
  "fst (calculate_md5 env p) =
     (case hash_file env p of
        Inr s \<Rightarrow> Inr s
      | Inl e \<Rightarrow> if stdout_accepts env (MsgMd5Failed p) then Inr [] else Inl UnicodeEncodeError)"
  by (simp add: calculate_md5_def fst_run split: sum.splits)

lemma fst_calculate_md5_simple:
  "fst (calculate_md5_simple env p) =
     (case hash_file env p of
        Inr s \<Rightarrow> Inr (Some s)
      | Inl e \<Rightarrow> if stdout_accepts env (MsgCannotRead p) then Inr None else Inl UnicodeEncodeError)"
  by (simp add: calculate_md5_simple_def fst_run split: sum.splits)

text \<open>
  One file of the scan of compare_resources.py: the two prints of the loop body are the two
  places where it can leave.
\<close>

lemma fst_scan_file:
  "fst (scan_file env p (d, n)) =
     (case hash_file env p of
        Inl e \<Rightarrow>
          if stdout_accepts env (MsgMd5Failed p) then Inr (d, n) else Inl UnicodeEncodeError
      | Inr s \<Rightarrow>
          if (n + 1) mod 100 = 0 \<and> \<not> stdout_accepts env (MsgProcessed (n + 1))
          then Inl UnicodeEncodeError
          else Inr (index_step env d p, n + 1))"
proof (cases "hash_file env p")
  case (Inl e)
  then show ?thesis
    by (simp add: scan_file_def fst_then_run fst_calculate_md5 fst_ret)
next
  case (Inr s)
  then have ne: "s \<noteq> []" by (rule hash_file_nonempty)
  show ?thesis
  proof (cases "map_of d s")
    case None
    then show ?thesis using Inr ne
      by (simp add: scan_file_def fst_then_run fst_calculate_md5 fst_ret fst_print
          index_step_def getitem_def has_key_map_of map_of_setitem setitem_setitem Let_def)
  next
    case (Some ps)
    then show ?thesis using Inr ne
      by (simp add: scan_file_def fst_then_run fst_calculate_md5 fst_ret fst_print
          index_step_def getitem_def has_key_map_of Let_def)
  qed
qed

lemma fst_scan_file_simple:
  "fst (scan_file_simple env p (d, n)) =
     (if (n + 1) mod 100 = 0 \<and> \<not> stdout_accepts env (MsgScanned (n + 1))
      then Inl UnicodeEncodeError
      else
        (case hash_file env p of
           Inl e \<Rightarrow>
             if stdout_accepts env (MsgCannotRead p) then Inr (d, n + 1)
             else Inl UnicodeEncodeError
         | Inr s \<Rightarrow> Inr (index_step env d p, n + 1)))"
proof (cases "hash_file env p")
  case (Inl e)
  then show ?thesis
    by (simp add: scan_file_simple_def fst_then_run fst_calculate_md5_simple fst_ret fst_print
        Let_def)
next
  case (Inr s)
  then have ne: "s \<noteq> []" by (rule hash_file_nonempty)
  show ?thesis
  proof (cases "map_of d s")
    case None
    then show ?thesis using Inr ne
      by (simp add: scan_file_simple_def fst_then_run fst_calculate_md5_simple fst_ret
          fst_print index_step_def dd_getitem_def setitem_setitem Let_def)
  next
    case (Some ps)
    then show ?thesis using Inr ne
      by (simp add: scan_file_simple_def fst_then_run fst_calculate_md5_simple fst_ret
          fst_print index_step_def dd_getitem_def Let_def)
  qed
qed

lemma index_step_failure: "hash_file env p = Inl e \<Longrightarrow> index_step env d p = d"
  by (simp add: index_step_def)

lemma scan_file_Inr:
  "fst (scan_file env p (d, n)) = Inr st \<Longrightarrow> fst st = index_step env d p"
  by (auto simp: fst_scan_file index_step_failure split: sum.splits if_splits)

lemma scan_file_simple_Inr:
  "fst (scan_file_simple env p (d, n)) = Inr st \<Longrightarrow> fst st = index_step env d p"
  by (auto simp: fst_scan_file_simple index_step_failure split: sum.splits if_splits)

lemma scan_file_ok:
  "stdout_ok env \<Longrightarrow> \<exists>n'. fst (scan_file env p (d, n)) = Inr (index_step env d p, n')"
  by (auto simp: fst_scan_file stdout_okD index_step_failure split: sum.splits)

lemma scan_file_simple_ok:
  "stdout_ok env \<Longrightarrow> \<exists>n'. fst (scan_file_simple env p (d, n)) = Inr (index_step env d p, n')"
  by (auto simp: fst_scan_file_simple stdout_okD index_step_failure split: sum.splits)

text \<open>Whatever the loops return, it is the fold of \<open>index_step\<close> over the files.\<close>

lemma scan_files_Inr:
  "fst (scan_files env root fns (d, n)) = Inr st \<Longrightarrow>
   fst st = foldl (index_step env) d (map (path_join env root) fns)"
proof (induction fns arbitrary: d n)
  case Nil
  then show ?case by (auto simp: fst_ret)
next
  case (Cons fn fns)
  from Cons.prems obtain st1
    where 1: "fst (scan_file env (path_join env root fn) (d, n)) = Inr st1"
      and 2: "fst (scan_files env root fns st1) = Inr st"
    by (auto simp: fst_then_run split: sum.splits)
  obtain d1 n1 where st1: "st1 = (d1, n1)" by (cases st1)
  from scan_file_Inr [OF 1] have "d1 = index_step env d (path_join env root fn)"
    by (simp add: st1)
  with Cons.IH [of d1 n1] 2 show ?case by (simp add: st1)
qed

lemma scan_walk_Inr:
  "fst (scan_walk env w (d, n)) = Inr st \<Longrightarrow>
   fst st = foldl (index_step env) d
     (concat (map (\<lambda>(root, dirs, filenames). map (path_join env root) filenames) w))"
proof (induction w arbitrary: d n)
  case Nil
  then show ?case by (auto simp: fst_ret)
next
  case (Cons x w)
  obtain root dirs fns where x: "x = (root, dirs, fns)" by (cases x)
  from Cons.prems obtain st1
    where 1: "fst (scan_files env root fns (d, n)) = Inr st1"
      and 2: "fst (scan_walk env w st1) = Inr st"
    by (auto simp: x fst_then_run split: sum.splits)
  obtain d1 n1 where st1: "st1 = (d1, n1)" by (cases st1)
  from scan_files_Inr [OF 1] have "d1 = foldl (index_step env) d (map (path_join env root) fns)"
    by (simp add: st1)
  with Cons.IH [of d1 n1] 2 show ?case by (simp add: st1 x)
qed

lemma scan_files_simple_Inr:
  "fst (scan_files_simple env root fns (d, n)) = Inr st \<Longrightarrow>
   fst st = foldl (index_step env) d (map (path_join env root) fns)"
proof (induction fns arbitrary: d n)
  case Nil
  then show ?case by (auto simp: fst_ret)
next
  case (Cons fn fns)
  from Cons.prems obtain st1
    where 1: "fst (scan_file_simple env (path_join env root fn) (d, n)) = Inr st1"
      and 2: "fst (scan_files_simple env root fns st1) = Inr st"
    by (auto simp: fst_then_run split: sum.splits)
  obtain d1 n1 where st1: "st1 = (d1, n1)" by (cases st1)
  from scan_file_simple_Inr [OF 1] have "d1 = index_step env d (path_join env root fn)"
    by (simp add: st1)
  with Cons.IH [of d1 n1] 2 show ?case by (simp add: st1)
qed

lemma scan_walk_simple_Inr:
  "fst (scan_walk_simple env w (d, n)) = Inr st \<Longrightarrow>
   fst st = foldl (index_step env) d
     (concat (map (\<lambda>(root, dirs, filenames). map (path_join env root) filenames) w))"
proof (induction w arbitrary: d n)
  case Nil
  then show ?case by (auto simp: fst_ret)
next
  case (Cons x w)
  obtain root dirs fns where x: "x = (root, dirs, fns)" by (cases x)
  from Cons.prems obtain st1
    where 1: "fst (scan_files_simple env root fns (d, n)) = Inr st1"
      and 2: "fst (scan_walk_simple env w st1) = Inr st"
    by (auto simp: x fst_then_run split: sum.splits)
  obtain d1 n1 where st1: "st1 = (d1, n1)" by (cases st1)
  from scan_files_simple_Inr [OF 1]
  have "d1 = foldl (index_step env) d (map (path_join env root) fns)"
    by (simp add: st1)
  with Cons.IH [of d1 n1] 2 show ?case by (simp add: st1 x)
qed

text \<open>When standard output takes every message, the loops return.\<close>

lemma scan_files_ok:
  "stdout_ok env \<Longrightarrow>
   \<exists>n'. fst (scan_files env root fns (d, n)) =
     Inr (foldl (index_step env) d (map (path_join env root) fns), n')"
proof (induction fns arbitrary: d n)
  case Nil
  then show ?case by (simp add: fst_ret)
next
  case (Cons fn fns)
  obtain n1 where s1: "fst (scan_file env (path_join env root fn) (d, n)) =
      Inr (index_step env d (path_join env root fn), n1)"
    using scan_file_ok [OF Cons.prems] by blast
  obtain n2 where s2:
    "fst (scan_files env root fns (index_step env d (path_join env root fn), n1)) =
      Inr (foldl (index_step env) (index_step env d (path_join env root fn))
         (map (path_join env root) fns), n2)"
    using Cons.IH [OF Cons.prems] by blast
  show ?case by (simp add: fst_then_run s1 s2)
qed

lemma scan_walk_ok:
  "stdout_ok env \<Longrightarrow>
   \<exists>n'. fst (scan_walk env w (d, n)) =
     Inr (foldl (index_step env) d
        (concat (map (\<lambda>(root, dirs, filenames). map (path_join env root) filenames) w)), n')"
proof (induction w arbitrary: d n)
  case Nil
  then show ?case by (simp add: fst_ret)
next
  case (Cons x w)
  obtain root dirs fns where x: "x = (root, dirs, fns)" by (cases x)
  obtain n1 where s1: "fst (scan_files env root fns (d, n)) =
      Inr (foldl (index_step env) d (map (path_join env root) fns), n1)"
    using scan_files_ok [OF Cons.prems] by blast
  obtain n2 where s2:
    "fst (scan_walk env w (foldl (index_step env) d (map (path_join env root) fns), n1)) =
      Inr (foldl (index_step env) (foldl (index_step env) d (map (path_join env root) fns))
        (concat (map (\<lambda>(root, dirs, filenames). map (path_join env root) filenames) w)), n2)"
    using Cons.IH [OF Cons.prems] by blast
  show ?case by (simp add: fst_then_run s1 s2 x)
qed

lemma scan_files_simple_ok:
  "stdout_ok env \<Longrightarrow>
   \<exists>n'. fst (scan_files_simple env root fns (d, n)) =
     Inr (foldl (index_step env) d (map (path_join env root) fns), n')"
proof (induction fns arbitrary: d n)
  case Nil
  then show ?case by (simp add: fst_ret)
next
  case (Cons fn fns)
  obtain n1 where s1: "fst (scan_file_simple env (path_join env root fn) (d, n)) =
      Inr (index_step env d (path_join env root fn), n1)"
    using scan_file_simple_ok [OF Cons.prems] by blast
  obtain n2 where s2:
    "fst (scan_files_simple env root fns (index_step env d (path_join env root fn), n1)) =
      Inr (foldl (index_step env) (index_step env d (path_join env root fn))
         (map (path_join env root) fns), n2)"
    using Cons.IH [OF Cons.prems] by blast
  show ?case by (simp add: fst_then_run s1 s2)
qed

lemma scan_walk_simple_ok:
  "stdout_ok env \<Longrightarrow>
   \<exists>n'. fst (scan_walk_simple env w (d, n)) =
     Inr (foldl (index_step env) d
        (concat (map (\<lambda>(root, dirs, filenames). map (path_join env root) filenames) w)), n')"
proof (induction w arbitrary: d n)
  case Nil
  then show ?case by (simp add: fst_ret)
next
  case (Cons x w)
  obtain root dirs fns where x: "x = (root, dirs, fns)" by (cases x)
  obtain n1 where s1: "fst (scan_files_simple env root fns (d, n)) =
      Inr (foldl (index_step env) d (map (path_join env root) fns), n1)"
    using scan_files_simple_ok [OF Cons.prems] by blast
  obtain n2 where s2:
    "fst (scan_walk_simple env w
        (foldl (index_step env) d (map (path_join env root) fns), n1)) =
      Inr (foldl (index_step env) (foldl (index_step env) d (map (path_join env root) fns))
        (concat (map (\<lambda>(root, dirs, filenames). map (path_join env root) filenames) w)), n2)"
    using Cons.IH [OF Cons.prems] by blast
  show ?case by (simp add: fst_then_run s1 s2 x)
qed

lemma scan_directory_Inr:
  "fst (scan_directory env dir) = Inr idx \<Longrightarrow>
   idx = index_of env (walked_paths env (abspath env dir))"
proof -
  assume a: "fst (scan_directory env dir) = Inr idx"
  then obtain st where 1: "fst (scan_walk env (walk env (abspath env dir)) ([], 0)) = Inr st"
    and 2: "idx = fst st"
    by (auto simp: scan_directory_def Let_def fst_run split: sum.splits if_splits prod.splits)
  from scan_walk_Inr [OF 1] 2 show ?thesis
    by (simp add: index_of_def walked_paths_def)
qed

lemma scan_directory_ok:
  "stdout_ok env \<Longrightarrow>
   fst (scan_directory env dir) = Inr (index_of env (walked_paths env (abspath env dir)))"
proof -
  assume ok: "stdout_ok env"
  obtain n where "fst (scan_walk env (walk env (abspath env dir)) ([], 0)) =
      Inr (index_of env (walked_paths env (abspath env dir)), n)"
    using scan_walk_ok [OF ok, of "walk env (abspath env dir)" "[]" 0]
    by (auto simp: index_of_def walked_paths_def)
  then show ?thesis
    by (simp add: scan_directory_def Let_def fst_run stdout_okD [OF ok])
qed

lemma scan_simple_Inr:
  "fst (scan_simple env dir) = Inr st \<Longrightarrow> fst st = index_of env (walked_paths env dir)"
proof -
  assume a: "fst (scan_simple env dir) = Inr st"
  then have 1: "fst (scan_walk_simple env (walk env dir) ([], 0)) = Inr st"
    by (auto simp: scan_simple_def fst_run split: sum.splits if_splits)
  from scan_walk_simple_Inr [OF 1] show ?thesis
    by (simp add: index_of_def walked_paths_def)
qed

lemma scan_simple_ok:
  "stdout_ok env \<Longrightarrow>
   \<exists>n. fst (scan_simple env dir) = Inr (index_of env (walked_paths env dir), n)"
proof -
  assume ok: "stdout_ok env"
  obtain n where "fst (scan_walk_simple env (walk env dir) ([], 0)) =
      Inr (index_of env (walked_paths env dir), n)"
    using scan_walk_simple_ok [OF ok, of "walk env dir" "[]" 0]
    by (auto simp: index_of_def walked_paths_def)
  then show ?thesis
    by (simp add: scan_simple_def fst_run stdout_okD [OF ok])
qed

lemma index_of_snoc: "index_of env (ps @ [p]) = index_step env (index_of env ps) p"
  by (simp add: index_of_def)

lemma first_seen_snoc:
  "first_seen (xs @ [x]) = (if x \<in> set xs then first_seen xs else first_seen xs @ [x])"
  by (simp add: first_seen_def)

lemma map_of_index_of:
  "map_of (index_of env ps) d =
     (if group_of env ps d = [] then None else Some (group_of env ps d))"
proof (induction ps arbitrary: d rule: rev_induct)
  case Nil
  then show ?case by (simp add: index_of_def group_of_def)
next
  case (snoc p ps)
  show ?case
  proof (cases "hash_file env p")
    case (Inl e)
    then show ?thesis
      using snoc [of d] by (simp add: index_of_snoc index_step_def group_of_def)
  next
    case (Inr s)
    then show ?thesis
      using snoc [of d] snoc [of s]
      by (auto simp: index_of_snoc index_step_def group_of_def map_of_setitem)
  qed
qed

lemma keys_index_of: "keys (index_of env ps) = first_seen (digests env ps)"
proof (induction ps rule: rev_induct)
  case Nil
  then show ?case by (simp add: index_of_def keys_def first_seen_def digests_def)
next
  case (snoc p ps)
  show ?case
  proof (cases "hash_file env p")
    case (Inl e)
    then show ?thesis
      using snoc by (simp add: index_of_snoc index_step_def digests_def)
  next
    case (Inr s)
    have "set (first_seen (digests env ps)) = set (digests env ps)"
      by (simp add: first_seen_def)
    then show ?thesis
      using snoc Inr
      by (simp add: index_of_snoc index_step_def digests_def keys_setitem first_seen_snoc)
  qed
qed

lemma distinct_keys_index_of: "distinct (keys (index_of env ps))"
  by (simp add: keys_index_of first_seen_def)

lemma getitem_present: "map_of d k = Some v \<Longrightarrow> getitem d k = (Inr v, [])"
  by (simp add: getitem_def ret_def)

lemma build_results_value:
  "set ks \<subseteq> set (keys A) \<inter> set (keys B) \<Longrightarrow>
   build_results A B ks acc =
     (Inr (acc @ map (\<lambda>k. (k, the (map_of A k), the (map_of B k))) ks), [])"
proof (induction ks arbitrary: acc)
  case Nil
  then show ?case by (simp add: ret_def)
next
  case (Cons k ks)
  from Cons.prems have "has_key A k" and "has_key B k"
    by (simp_all add: has_key_def)
  then obtain a b where a: "map_of A k = Some a" and b: "map_of B k = Some b"
    by (auto simp: has_key_map_of)
  from Cons.prems have "set ks \<subseteq> set (keys A) \<inter> set (keys B)" by simp
  from Cons.IH [OF this]
  show ?case by (simp add: then_run_def getitem_present a b)
qed

lemma fst_build_results:
  "fst (build_results A B (sorted_list_of_set (set (keys A) \<inter> set (keys B))) []) =
     Inr (map (\<lambda>k. (k, the (map_of A k), the (map_of B k)))
       (sorted_list_of_set (set (keys A) \<inter> set (keys B))))"
proof -
  have "set (sorted_list_of_set (set (keys A) \<inter> set (keys B))) \<subseteq> set (keys A) \<inter> set (keys B)"
    by simp
  from build_results_value [OF this, of "[]"] show ?thesis by simp
qed

text \<open>
  The comparison returns only after both scans have returned, and then its result is made of
  the two dictionaries.
\<close>

lemma compare_directories_Inr:
  assumes "fst (compare_directories env dir1 dir2) = Inr r"
  shows "fst (scan_directory env dir1) = Inr (index_of env (walked_paths env (abspath env dir1)))"
    and "fst (scan_directory env dir2) = Inr (index_of env (walked_paths env (abspath env dir2)))"
    and "r = map (\<lambda>k. (k, the (map_of (index_of env (walked_paths env (abspath env dir1))) k),
                        the (map_of (index_of env (walked_paths env (abspath env dir2))) k)))
        (sorted_list_of_set
           (set (keys (index_of env (walked_paths env (abspath env dir1)))) \<inter>
            set (keys (index_of env (walked_paths env (abspath env dir2))))))"
proof -
  from assms obtain A B where A: "fst (scan_directory env dir1) = Inr A"
    and B: "fst (scan_directory env dir2) = Inr B"
    and r: "fst (build_results A B (sorted_list_of_set (set (keys A) \<inter> set (keys B))) []) =
      Inr r"
    by (auto simp: compare_directories_def Let_def fst_then_run fst_print
        split: sum.splits if_splits)
  have A': "A = index_of env (walked_paths env (abspath env dir1))"
    using A by (rule scan_directory_Inr)
  have B': "B = index_of env (walked_paths env (abspath env dir2))"
    using B by (rule scan_directory_Inr)
  from A A' show "fst (scan_directory env dir1) =
      Inr (index_of env (walked_paths env (abspath env dir1)))" by simp
  from B B' show "fst (scan_directory env dir2) =
      Inr (index_of env (walked_paths env (abspath env dir2)))" by simp
  from r show "r = map (\<lambda>k. (k, the (map_of (index_of env (walked_paths env (abspath env dir1))) k),
                        the (map_of (index_of env (walked_paths env (abspath env dir2))) k)))
        (sorted_list_of_set
           (set (keys (index_of env (walked_paths env (abspath env dir1)))) \<inter>
            set (keys (index_of env (walked_paths env (abspath env dir2))))))"
    unfolding fst_build_results A' B' by simp
qed

lemma compare_directories_ok:
  "stdout_ok env \<Longrightarrow>
   fst (compare_directories env dir1 dir2) =
     Inr (map (\<lambda>k. (k, the (map_of (index_of env (walked_paths env (abspath env dir1))) k),
                        the (map_of (index_of env (walked_paths env (abspath env dir2))) k)))
        (sorted_list_of_set
           (set (keys (index_of env (walked_paths env (abspath env dir1)))) \<inter>
            set (keys (index_of env (walked_paths env (abspath env dir2)))))))"
  by (simp add: compare_directories_def Let_def fst_then_run fst_print stdout_okD
      scan_directory_ok fst_build_results)

lemma map_of_distinct_iff:
  "distinct (map fst d) \<Longrightarrow> (k, v) \<in> set d \<longleftrightarrow> map_of d k = Some v"
  by (auto dest: map_of_SomeD)

lemma index_of_entry:
  "(d, ps) \<in> set (index_of env paths) \<longleftrightarrow> ps = group_of env paths d \<and> ps \<noteq> []"
  using map_of_distinct_iff [of "index_of env paths" d ps] distinct_keys_index_of [of env paths]
  by (auto simp: keys_def map_of_index_of)

lemma has_key_index_of:
  "has_key (index_of env paths) d \<longleftrightarrow> group_of env paths d \<noteq> []"
  by (simp add: has_key_map_of map_of_index_of)

lemma in_index_index_of:
  "in_index (index_of env paths) p \<longleftrightarrow> p \<in> set paths \<and> (\<exists>s. hash_file env p = Inr s)"
proof
  assume "in_index (index_of env paths) p"
  then obtain d ps where "(d, ps) \<in> set (index_of env paths)" "p \<in> set ps"
    by (auto simp: in_index_def)
  then show "p \<in> set paths \<and> (\<exists>s. hash_file env p = Inr s)"
    by (auto simp: index_of_entry group_of_def)
next
  assume a: "p \<in> set paths \<and> (\<exists>s. hash_file env p = Inr s)"
  then obtain s where s: "hash_file env p = Inr s" by blast
  with a have "p \<in> set (group_of env paths s)" by (simp add: group_of_def)
  moreover from this have "(s, group_of env paths s) \<in> set (index_of env paths)"
    by (auto simp: index_of_entry)
  ultimately show "in_index (index_of env paths) p"
    by (force simp: in_index_def)
qed

lemma keys_filter: "keys (filter P d) = filter (\<lambda>k. \<exists>v. (k, v) \<in> set d \<and> P (k, v)) (keys d)"
  if "distinct (keys d)"
  using that
proof (induction d)
  case Nil
  then show ?case by (simp add: keys_def)
next
  case (Cons x d)
  obtain k v where x: "x = (k, v)" by (cases x)
  from Cons.prems have k: "k \<notin> fst ` set d" and d: "distinct (keys d)"
    by (auto simp: keys_def x)
  have "filter (\<lambda>k'. \<exists>v'. (k', v') \<in> set (x # d) \<and> P (k', v')) (keys d) =
        filter (\<lambda>k'. \<exists>v'. (k', v') \<in> set d \<and> P (k', v')) (keys d)"
    using k by (intro filter_cong) (auto simp: x keys_def)
  then show ?case
    using Cons.IH [OF d] k by (auto simp: keys_def x rev_image_eqI)
qed

lemma map_of_filter_distinct:
  "distinct (keys d) \<Longrightarrow>
   map_of (filter P d) k =
     (case map_of d k of None \<Rightarrow> None | Some v \<Rightarrow> if P (k, v) then Some v else None)"
proof (induction d)
  case Nil
  then show ?case by simp
next
  case (Cons x d)
  obtain k' v' where x: "x = (k', v')" by (cases x)
  from Cons.prems have k: "k' \<notin> fst ` set d" and d: "distinct (keys d)"
    by (auto simp: keys_def x)
  from k have "map_of d k' = None" by (simp add: map_of_eq_None_iff)
  then show ?case
    using Cons.IH [OF d] by (auto simp: x split: option.splits)
qed

text \<open>
  The duplicate finder returns only for a root that is a directory and after its scan has
  returned, and then its result is the filtered dictionary.
\<close>

lemma find_duplicate_files_Inr:
  assumes "fst (find_duplicate_files env dir) = Inr dups"
  shows "path_exists env dir" and "path_isdir env dir"
    and "\<exists>n. fst (scan_simple env dir) = Inr (index_of env (walked_paths env dir), n)"
    and "dups = filter (\<lambda>(md5, paths). length paths > 1) (index_of env (walked_paths env dir))"
proof -
  from assms show ok1: "path_exists env dir"
    by (auto simp: find_duplicate_files_def fst_run split: if_splits)
  from assms show ok2: "path_isdir env dir"
    by (auto simp: find_duplicate_files_def fst_run split: if_splits)
  from assms ok1 ok2 obtain st where st: "fst (scan_simple env dir) = Inr st"
    and d: "dups = filter (\<lambda>(md5, paths). length paths > 1) (fst st)"
    by (auto simp: find_duplicate_files_def fst_run split: sum.splits if_splits prod.splits)
  obtain idx n where stp: "st = (idx, n)" by (cases st)
  from scan_simple_Inr [OF st] have i: "idx = index_of env (walked_paths env dir)"
    by (simp add: stp)
  from st i show "\<exists>n. fst (scan_simple env dir) = Inr (index_of env (walked_paths env dir), n)"
    by (auto simp: stp)
  from d i show "dups =
      filter (\<lambda>(md5, paths). length paths > 1) (index_of env (walked_paths env dir))"
    by (simp add: stp)
qed

lemma find_duplicate_files_ok:
  "stdout_ok env \<Longrightarrow> path_exists env dir \<Longrightarrow> path_isdir env dir \<Longrightarrow>
   fst (find_duplicate_files env dir) =
     Inr (filter (\<lambda>(md5, paths). length paths > 1) (index_of env (walked_paths env dir)))"
proof -
  assume ok: "stdout_ok env" and v: "path_exists env dir" "path_isdir env dir"
  obtain n where "fst (scan_simple env dir) = Inr (index_of env (walked_paths env dir), n)"
    using scan_simple_ok [OF ok] by blast
  then show ?thesis
    using v by (simp add: find_duplicate_files_def fst_run stdout_okD [OF ok])
qed

section \<open>The example evaluated\<close>

lemma replicate_numeral: "replicate (numeral k) x = x # replicate (pred_numeral k) x"
  by (simp add: numeral_eq_Suc)

lemma upt_0_numeral: "[0..<numeral n] = 0 # [Suc 0..<numeral n]"
  by (simp add: upt_rec [of 0])

lemma upt_1_numeral:
  "[Suc 0..<numeral n] = (if Suc 0 < numeral n then Suc 0 # [2..<numeral n] else [])"
  by (subst upt_rec) (simp add: numeral_2_eq_2)

lemma upt_Suc_numeral:
  "[Suc (numeral m)..<numeral n] = [numeral (m + Num.One)..<numeral n]"
  by (simp add: add_One)

lemmas md5_eval =
  md5_mix_def md5_idx_def md5_K_def md5_S_def rotl32_def add32_def not32_def
  md5_compress_def md5_iv_def md5_absorb.simps le_bytes_def md5_pad_def md5_new_def
  md5_update_def md5_digest_def hex_digit_def hex_byte_def md5_hexdigest_def md5_hex_def
  replicate_numeral upt_0_numeral upt_1_numeral upt_Suc_numeral

lemma md5_hex_empty: "md5_hex [] = digest_empty"
  by (simp add: md5_eval digest_empty_def)

lemma md5_hex_a: "md5_hex [0x61] = digest_a"
  by (simp add: md5_eval digest_a_def)

lemma demo_env_simps:
  "files demo_env = map_of demo_files"
  "abspath demo_env p = p"
  "path_join demo_env root name = root @ ''/'' @ name"
  "walk demo_env ''A'' = [(''A'', [''sub''], [''e1'', ''x'', ''gone'', ''torn'']),
                          (''A/sub'', [], [''e2'', ''y''])]"
  "walk demo_env ''B'' = [(''B'', [], [''z'', ''e3''])]"
  "walk demo_env ''U'' = [(''U'', [], [bad_name, ''ok''])]"
  "path_isdir demo_env ''A''" "path_isdir demo_env ''B''" "path_isdir demo_env ''U''"
  "path_exists demo_env ''A''" "path_exists demo_env ''B''" "path_exists demo_env ''U''"
  "\<not> path_isdir demo_env ''nowhere''" "\<not> path_exists demo_env ''nowhere''"
  "\<not> path_isdir demo_env ''A/e1''" "path_exists demo_env ''A/e1''"
  "stdout_accepts demo_env e"
  by (simp_all add: demo_env_def demo_walk_def demo_files_def)

lemma demo_stdout_ok: "stdout_ok demo_env"
  by (simp add: stdout_ok_def demo_env_simps)

lemma demo_hashes:
  "hash_file demo_env ''A/e1'' = Inr digest_empty"
  "hash_file demo_env ''A/sub/e2'' = Inr digest_empty"
  "hash_file demo_env ''B/e3'' = Inr digest_empty"
  "hash_file demo_env ''A/x'' = Inr digest_a"
  "hash_file demo_env ''A/sub/y'' = Inr digest_a"
  "hash_file demo_env ''B/z'' = Inr digest_a"
  "hash_file demo_env ''U/ok'' = Inr digest_a"
  by (simp_all add: hash_file_readable [where f = "demo_file [] t" for t, unfolded demo_file_def]
      hash_file_readable [where f = "demo_file [0x61] t" for t, unfolded demo_file_def]
      demo_env_simps demo_files_def demo_file_def md5_hex_empty md5_hex_a)

lemma demo_failures:
  "hash_file demo_env ''A/gone'' = Inl OSError"
  "hash_file demo_env ''A/torn'' = Inl OSError"
  "hash_file demo_env (''U/'' @ bad_name) = Inl OSError"
  by (simp_all add: hash_file_def os_open_def demo_env_simps demo_files_def
      read_chunks.simps fread_def bad_name_def)

lemma digest_order: "digest_a < digest_empty" "digest_a \<noteq> digest_empty"
  by (simp_all add: digest_a_def digest_empty_def)

lemma demo_index_A:
  "index_of demo_env (walked_paths demo_env ''A'') =
     [(digest_empty, [''A/e1'', ''A/sub/e2'']), (digest_a, [''A/x'', ''A/sub/y''])]"
  using digest_order
  by (simp add: index_of_def walked_paths_def index_step_def demo_env_simps demo_hashes
      demo_failures)

lemma demo_index_B:
  "index_of demo_env (walked_paths demo_env ''B'') =
     [(digest_a, [''B/z'']), (digest_empty, [''B/e3''])]"
  using digest_order
  by (simp add: index_of_def walked_paths_def index_step_def demo_env_simps demo_hashes
      demo_failures)

lemma sorted_common:
  "sorted_list_of_set (set xs \<inter> set ys) = sort (remdups (filter (\<lambda>x. x \<in> set ys) xs))"
proof -
  have "set xs \<inter> set ys = set (filter (\<lambda>x. x \<in> set ys) xs)" by auto
  then have "sorted_list_of_set (set xs \<inter> set ys) =
      sorted_list_of_set (set (filter (\<lambda>x. x \<in> set ys) xs))"
    by (rule arg_cong)
  also have "\<dots> = sort (remdups (filter (\<lambda>x. x \<in> set ys) xs))"
    by (rule sorted_list_of_set_sort_remdups)
  finally show ?thesis .
qed

lemma demo_compare:
  "fst (compare_directories demo_env ''A'' ''B'') =
     Inr [(digest_a, [''A/x'', ''A/sub/y''], [''B/z'']),
          (digest_empty, [''A/e1'', ''A/sub/e2''], [''B/e3''])]"
  using digest_order
  by (simp add: compare_directories_ok [OF demo_stdout_ok] demo_env_simps demo_index_A
      demo_index_B keys_def sorted_common)

lemma demo_duplicates:
  "fst (find_duplicate_files demo_env ''A'') =
     Inr [(digest_empty, [''A/e1'', ''A/sub/e2'']), (digest_a, [''A/x'', ''A/sub/y''])]"
  by (simp add: find_duplicate_files_ok [OF demo_stdout_ok] demo_env_simps demo_index_A)

text \<open>The same trees behind the standard output in UTF-8.\<close>

lemma hash_file_stdout_update [simp]:
  "hash_file (env\<lparr>stdout_accepts := a\<rparr>) p = hash_file env p"
  by (simp add: hash_file_def os_open_def)

lemma utf8_env_simps:
  "abspath utf8_env p = p"
  "path_join utf8_env root name = root @ ''/'' @ name"
  "walk utf8_env ''U'' = [(''U'', [], [bad_name, ''ok''])]"
  "path_isdir utf8_env ''U''" "path_exists utf8_env ''U''"
  "stdout_accepts utf8_env e = utf8_stdout e"
  "hash_file utf8_env p = hash_file demo_env p"
  by (simp_all add: utf8_env_def demo_env_simps)

lemma utf8_refuses:
  "\<not> utf8_stdout (MsgMd5Failed (''U/'' @ bad_name))"
  "\<not> utf8_stdout (MsgCannotRead (''U/'' @ bad_name))"
  "utf8_stdout (MsgScanning ''U'')"
  "utf8_stdout MsgRule" "utf8_stdout MsgStartScan"
  by (simp_all add: utf8_stdout_def bad_name_def)

lemmas bad_path_simps =
  demo_failures(3) [simplified] utf8_refuses(1) [simplified] utf8_refuses(2) [simplified]

section \<open>The fingerprint\<close>

lemma calculate_md5_readable:
  "files env p = Some f \<Longrightarrow> read_fault f = None \<Longrightarrow>
   calculate_md5 env p = ret (md5_hex (content f))"
  by (simp add: calculate_md5_def hash_file_readable)

lemma calculate_md5_simple_readable:
  "files env p = Some f \<Longrightarrow> read_fault f = None \<Longrightarrow>
   calculate_md5_simple env p = ret (Some (md5_hex (content f)))"
  by (simp add: calculate_md5_simple_def hash_file_readable)



text \<open>
  C6. For a readable file, the loop that reads 4096 bytes at a time and feeds every chunk to
  the hash object leaves it as one single update with the whole content does, so both versions
  of \<^verbatim>\<open>calculate_md5\<close> return the digest of the whole content hashed in one step; and no other
  way of cutting the content into chunks changes the digest either.
\<close>

theorem chunked_hash_is_whole_hash:
  assumes "files env p = Some f" and "read_fault f = None"
  shows "read_chunks \<lparr>unread = content f, reads_left = None\<rparr> md5_new =
           Inr (md5_update md5_new (content f)) \<and>
         calculate_md5 env p = ret (md5_hexdigest (md5_update md5_new (content f))) \<and>
         calculate_md5_simple env p =
           ret (Some (md5_hexdigest (md5_update md5_new (content f)))) \<and>
         (\<forall>chunks. concat chunks = content f \<longrightarrow>
            md5_hexdigest (foldl md5_update md5_new chunks) =
            md5_hexdigest (md5_update md5_new (content f)))"
proof -
  let ?h = "\<lparr>unread = content f, reads_left = None\<rparr>"
  obtain h' where h': "read_chunks ?h md5_new = Inr h'"
    using read_chunks_total [of ?h md5_new] by auto
  from read_chunks_result [OF pending_md5_new h']
  have "read_chunks ?h md5_new = Inr (md5_update md5_new (content f))"
    using h' by simp
  moreover have "\<forall>chunks. concat chunks = content f \<longrightarrow>
      md5_hexdigest (foldl md5_update md5_new chunks) =
      md5_hexdigest (md5_update md5_new (content f))"
    by (auto simp: foldl_md5_update [OF pending_md5_new])
  ultimately show ?thesis
    using assms calculate_md5_readable [OF assms] calculate_md5_simple_readable [OF assms]
    by (simp add: md5_hex_def)
qed

theorem chunked_hash_is_whole_hash_witness:
  "files demo_env ''A/x'' = Some (demo_file [0x61] 2) \<and>
   calculate_md5 demo_env ''A/x'' = ret digest_a \<and>
   md5_hexdigest (foldl md5_update md5_new [[0x61], []]) = digest_a"
proof -
  have 1: "files demo_env ''A/x'' = Some (demo_file [0x61] 2)"
    by (simp add: demo_env_simps demo_files_def)
  have 2: "read_fault (demo_file [0x61] 2) = None"
    and 3: "content (demo_file [0x61] 2) = [0x61]"
    by (simp_all add: demo_file_def)
  have 4: "concat [[0x61], []] = content (demo_file [0x61] 2)"
    by (simp add: 3)
  from chunked_hash_is_whole_hash [OF 1 2] 4
  have "calculate_md5 demo_env ''A/x'' = ret (md5_hex [0x61])"
    and "md5_hexdigest (foldl md5_update md5_new [[0x61], []]) = md5_hex [0x61]"
    unfolding 3 md5_hex_def by blast+
  with 1 show ?thesis by (simp add: md5_hex_a)
qed

section \<open>Empty files\<close>

lemma read_chunks_empty:
  "read_chunks \<lparr>unread = [], reads_left = None\<rparr> h = Inr h"
  by (subst read_chunks.simps) (simp add: fread_def)

lemma map_of_index_of_Some:
  "p \<in> set paths \<Longrightarrow> hash_file env p = Inr s \<Longrightarrow>
   \<exists>ps. map_of (index_of env paths) s = Some ps \<and> p \<in> set ps"
proof -
  assume "p \<in> set paths" and "hash_file env p = Inr s"
  then have "p \<in> set (group_of env paths s)" by (simp add: group_of_def)
  then show ?thesis by (auto simp: map_of_index_of)
qed

lemma compare_directories_member:
  assumes "map_of (index_of env (walked_paths env (abspath env dir1))) d = Some a"
    and "map_of (index_of env (walked_paths env (abspath env dir2))) d = Some b"
    and "fst (compare_directories env dir1 dir2) = Inr r"
  shows "(d, a, b) \<in> set r"
proof -
  let ?A = "index_of env (walked_paths env (abspath env dir1))"
  let ?B = "index_of env (walked_paths env (abspath env dir2))"
  from assms have "has_key ?A d" and "has_key ?B d"
    by (simp_all add: has_key_map_of)
  then have "d \<in> set (sorted_list_of_set (set (keys ?A) \<inter> set (keys ?B)))"
    by (simp add: has_key_def)
  then have "(\<lambda>k. (k, the (map_of ?A k), the (map_of ?B k))) d \<in>
      (\<lambda>k. (k, the (map_of ?A k), the (map_of ?B k))) `
        set (sorted_list_of_set (set (keys ?A) \<inter> set (keys ?B)))"
    by (rule imageI)
  then have "(d, a, b) \<in> set (map (\<lambda>k. (k, the (map_of ?A k), the (map_of ?B k)))
      (sorted_list_of_set (set (keys ?A) \<inter> set (keys ?B))))"
    using assms(1,2) by (simp only: set_map option.sel)
  then show ?thesis
    by (simp only: compare_directories_Inr(3) [OF assms(3), symmetric])
qed

text \<open>
  C9. For a readable file of zero bytes the chunk loop leaves the fresh hash object untouched,
  and both versions of \<^verbatim>\<open>calculate_md5\<close> return the MD5 digest of the empty byte string,
  \<^verbatim>\<open>d41d8cd98f00b204e9800998ecf8427e\<close>, printing nothing. So an empty file is in the
  dictionary that a scan visiting it returns, under that digest, and the empty files of the
  two trees of a comparison are the two sides of one group of its result. The scans and the
  comparison do return when standard output takes every message.
\<close>

theorem empty_file_fingerprint:
  assumes "files env p = Some f" and "content f = []" and "read_fault f = None"
  shows "read_chunks \<lparr>unread = content f, reads_left = read_fault f\<rparr> md5_new = Inr md5_new \<and>
     calculate_md5 env p = ret digest_empty \<and>
     calculate_md5_simple env p = ret (Some digest_empty) \<and>
     (\<forall>dir idx. p \<in> set (walked_paths env (abspath env dir)) \<longrightarrow>
        fst (scan_directory env dir) = Inr idx \<longrightarrow>
        (\<exists>ps. map_of idx digest_empty = Some ps \<and> p \<in> set ps)) \<and>
     (\<forall>dir idx n. p \<in> set (walked_paths env dir) \<longrightarrow>
        fst (scan_simple env dir) = Inr (idx, n) \<longrightarrow>
        (\<exists>ps. map_of idx digest_empty = Some ps \<and> p \<in> set ps)) \<and>
     (\<forall>dir1 dir2 q g r.
        p \<in> set (walked_paths env (abspath env dir1)) \<longrightarrow>
        q \<in> set (walked_paths env (abspath env dir2)) \<longrightarrow>
        files env q = Some g \<longrightarrow> content g = [] \<longrightarrow> read_fault g = None \<longrightarrow>
        fst (compare_directories env dir1 dir2) = Inr r \<longrightarrow>
        (\<exists>sideA sideB.
           (digest_empty, sideA, sideB) \<in> set r \<and> p \<in> set sideA \<and> q \<in> set sideB)) \<and>
     (stdout_ok env \<longrightarrow>
        (\<forall>dir. \<exists>idx. fst (scan_directory env dir) = Inr idx) \<and>
        (\<forall>dir. \<exists>idx n. fst (scan_simple env dir) = Inr (idx, n)) \<and>
        (\<forall>dir1 dir2. \<exists>r. fst (compare_directories env dir1 dir2) = Inr r))"
proof -
  have hp: "hash_file env p = Inr digest_empty"
    using hash_file_readable [OF assms(1,3)] assms(2) by (simp add: md5_hex_empty)
  have 1: "read_chunks \<lparr>unread = content f, reads_left = read_fault f\<rparr> md5_new = Inr md5_new"
    using assms by (simp add: read_chunks_empty)
  have 2: "calculate_md5 env p = ret digest_empty"
    using calculate_md5_readable [OF assms(1,3)] assms(2) by (simp add: md5_hex_empty)
  have 3: "calculate_md5_simple env p = ret (Some digest_empty)"
    using calculate_md5_simple_readable [OF assms(1,3)] assms(2) by (simp add: md5_hex_empty)
  have 4: "\<exists>ps. map_of idx digest_empty = Some ps \<and> p \<in> set ps"
    if "p \<in> set (walked_paths env (abspath env dir))"
      and "fst (scan_directory env dir) = Inr idx" for dir idx
    using map_of_index_of_Some [OF that(1) hp] scan_directory_Inr [OF that(2)] by simp
  have 5: "\<exists>ps. map_of idx digest_empty = Some ps \<and> p \<in> set ps"
    if "p \<in> set (walked_paths env dir)"
      and "fst (scan_simple env dir) = Inr (idx, n)" for dir idx n
    using map_of_index_of_Some [OF that(1) hp] scan_simple_Inr [OF that(2)] by simp
  have 6: "\<exists>sideA sideB.
      (digest_empty, sideA, sideB) \<in> set r \<and> p \<in> set sideA \<and> q \<in> set sideB"
    if p: "p \<in> set (walked_paths env (abspath env dir1))"
      and q: "q \<in> set (walked_paths env (abspath env dir2))"
      and g: "files env q = Some g" "content g = []" "read_fault g = None"
      and r: "fst (compare_directories env dir1 dir2) = Inr r"
    for dir1 dir2 q g r
  proof -
    have hq: "hash_file env q = Inr digest_empty"
      using hash_file_readable [OF g(1,3)] g(2) by (simp add: md5_hex_empty)
    obtain a where a: "map_of (index_of env (walked_paths env (abspath env dir1))) digest_empty
        = Some a" "p \<in> set a"
      using map_of_index_of_Some [OF p hp] by blast
    obtain b where b: "map_of (index_of env (walked_paths env (abspath env dir2))) digest_empty
        = Some b" "q \<in> set b"
      using map_of_index_of_Some [OF q hq] by blast
    from compare_directories_member [OF a(1) b(1) r] a(2) b(2) show ?thesis by blast
  qed
  have 7: "(\<forall>dir. \<exists>idx. fst (scan_directory env dir) = Inr idx) \<and>
      (\<forall>dir. \<exists>idx n. fst (scan_simple env dir) = Inr (idx, n)) \<and>
      (\<forall>dir1 dir2. \<exists>r. fst (compare_directories env dir1 dir2) = Inr r)"
    if ok: "stdout_ok env"
    using scan_directory_ok [OF ok] scan_simple_ok [OF ok] compare_directories_ok [OF ok]
    by blast
  from 1 2 3 4 5 6 7 show ?thesis by blast
qed

theorem empty_file_fingerprint_witness:
  "files demo_env ''A/e1'' = Some (demo_file [] 1) \<and>
   calculate_md5 demo_env ''A/e1'' = ret ''d41d8cd98f00b204e9800998ecf8427e'' \<and>
   (\<exists>r sideA sideB. fst (compare_directories demo_env ''A'' ''B'') = Inr r \<and>
      (digest_empty, sideA, sideB) \<in> set r \<and> ''A/e1'' \<in> set sideA \<and> ''B/e3'' \<in> set sideB)"
proof -
  have 1: "files demo_env ''A/e1'' = Some (demo_file [] 1)"
    and 2: "files demo_env ''B/e3'' = Some (demo_file [] 7)"
    by (simp_all add: demo_env_simps demo_files_def)
  have 3: "content (demo_file [] t) = []" "read_fault (demo_file [] t) = None" for t
    by (simp_all add: demo_file_def)
  have 4: "''A/e1'' \<in> set (walked_paths demo_env (abspath demo_env ''A''))"
    and 5: "''B/e3'' \<in> set (walked_paths demo_env (abspath demo_env ''B''))"
    by (simp_all add: walked_paths_def demo_env_simps)
  note t = empty_file_fingerprint [OF 1 3]
  from t have c: "calculate_md5 demo_env ''A/e1'' = ret digest_empty" by blast
  from t demo_stdout_ok obtain r where r: "fst (compare_directories demo_env ''A'' ''B'') = Inr r"
    by blast
  from t have six: "\<forall>dir1 dir2 q g r.
        ''A/e1'' \<in> set (walked_paths demo_env (abspath demo_env dir1)) \<longrightarrow>
        q \<in> set (walked_paths demo_env (abspath demo_env dir2)) \<longrightarrow>
        files demo_env q = Some g \<longrightarrow> content g = [] \<longrightarrow> read_fault g = None \<longrightarrow>
        fst (compare_directories demo_env dir1 dir2) = Inr r \<longrightarrow>
        (\<exists>sideA sideB.
           (digest_empty, sideA, sideB) \<in> set r \<and> ''A/e1'' \<in> set sideA \<and> q \<in> set sideB)"
    by blast
  from six [rule_format, OF 4 5 2 3 r] have "\<exists>sideA sideB.
      (digest_empty, sideA, sideB) \<in> set r \<and> ''A/e1'' \<in> set sideA \<and> ''B/e3'' \<in> set sideB" .
  with r have "\<exists>r sideA sideB.
      fst (compare_directories demo_env ''A'' ''B'') = Inr r \<and>
      (digest_empty, sideA, sideB) \<in> set r \<and> ''A/e1'' \<in> set sideA \<and> ''B/e3'' \<in> set sideB"
    by blast
  with c show ?thesis using 1 by (simp add: digest_empty_def)
qed

section \<open>Failures and the guard of the scanners\<close>

lemma hash_file_format:
  "hash_file env p = Inr s \<Longrightarrow> length s = 32 \<and> (\<forall>c\<in>set s. is_hex_char c)"
  by (auto simp: hash_file_def length_md5_hexdigest hex_md5_hexdigest split: sum.splits)

lemma index_step_success:
  "hash_file env p = Inr s \<Longrightarrow>
   \<exists>ps. map_of (index_step env d p) s = Some ps \<and> p \<in> set ps"
  by (simp add: index_step_def map_of_setitem)

text \<open>
  C10. A successful fingerprint is a string of 32 hexadecimal characters, so it is never the
  empty string that the \<^verbatim>\<open>calculate_md5\<close> of compare_resources.py returns for a failure, nor
  the \<^verbatim>\<open>None\<close> of the duplicate finder. The guard \<^verbatim>\<open>if md5_value\<close> of both scanners therefore
  stores the path of every file that was fingerprinted, under its digest, and leaves the
  dictionary as it was exactly for the files whose read failed: this is so for whatever the
  loop body returns, and it does return when standard output takes every message.
\<close>

theorem failure_sentinel_disjoint:
  "(\<forall>s. hash_file env p = Inr s \<longrightarrow>
      length s = 32 \<and> (\<forall>c\<in>set s. is_hex_char c) \<and> s \<noteq> [] \<and>
      calculate_md5 env p = ret s \<and>
      calculate_md5_simple env p = ret (Some s) \<and>
      (\<forall>st. fst (scan_file env p (d, n)) = Inr st \<longrightarrow>
         snd st = n + 1 \<and> (\<exists>ps. map_of (fst st) s = Some ps \<and> p \<in> set ps)) \<and>
      (\<forall>st. fst (scan_file_simple env p (d, n)) = Inr st \<longrightarrow>
         snd st = n + 1 \<and> (\<exists>ps. map_of (fst st) s = Some ps \<and> p \<in> set ps)) \<and>
      (stdout_ok env \<longrightarrow>
         (\<exists>d' ps. fst (scan_file env p (d, n)) = Inr (d', n + 1) \<and>
            map_of d' s = Some ps \<and> p \<in> set ps) \<and>
         (\<exists>d' ps. fst (scan_file_simple env p (d, n)) = Inr (d', n + 1) \<and>
            map_of d' s = Some ps \<and> p \<in> set ps))) \<and>
   (\<forall>e. hash_file env p = Inl e \<longrightarrow>
      (\<forall>v. fst (calculate_md5 env p) = Inr v \<longrightarrow> v = []) \<and>
      (\<forall>v. fst (calculate_md5_simple env p) = Inr v \<longrightarrow> v = None) \<and>
      (\<forall>st. fst (scan_file env p (d, n)) = Inr st \<longrightarrow> st = (d, n)) \<and>
      (\<forall>st. fst (scan_file_simple env p (d, n)) = Inr st \<longrightarrow> st = (d, n + 1)) \<and>
      (stdout_ok env \<longrightarrow>
         fst (calculate_md5 env p) = Inr [] \<and>
         fst (calculate_md5_simple env p) = Inr None \<and>
         fst (scan_file env p (d, n)) = Inr (d, n) \<and>
         fst (scan_file_simple env p (d, n)) = Inr (d, n + 1)))"
proof -
  have A: "length s = 32 \<and> (\<forall>c\<in>set s. is_hex_char c) \<and> s \<noteq> [] \<and>
      calculate_md5 env p = ret s \<and>
      calculate_md5_simple env p = ret (Some s) \<and>
      (\<forall>st. fst (scan_file env p (d, n)) = Inr st \<longrightarrow>
         snd st = n + 1 \<and> (\<exists>ps. map_of (fst st) s = Some ps \<and> p \<in> set ps)) \<and>
      (\<forall>st. fst (scan_file_simple env p (d, n)) = Inr st \<longrightarrow>
         snd st = n + 1 \<and> (\<exists>ps. map_of (fst st) s = Some ps \<and> p \<in> set ps)) \<and>
      (stdout_ok env \<longrightarrow>
         (\<exists>d' ps. fst (scan_file env p (d, n)) = Inr (d', n + 1) \<and>
            map_of d' s = Some ps \<and> p \<in> set ps) \<and>
         (\<exists>d' ps. fst (scan_file_simple env p (d, n)) = Inr (d', n + 1) \<and>
            map_of d' s = Some ps \<and> p \<in> set ps))"
    if s: "hash_file env p = Inr s" for s
  proof -
    from hash_file_format [OF s]
    have f1: "length s = 32 \<and> (\<forall>c\<in>set s. is_hex_char c)" .
    from s have f2: "s \<noteq> []" by (rule hash_file_nonempty)
    from s have f3: "calculate_md5 env p = ret s" by (simp add: calculate_md5_def)
    from s have f4: "calculate_md5_simple env p = ret (Some s)"
      by (simp add: calculate_md5_simple_def)
    note i = index_step_success [OF s, of d]
    have f5: "snd st = n + 1 \<and> (\<exists>ps. map_of (fst st) s = Some ps \<and> p \<in> set ps)"
      if "fst (scan_file env p (d, n)) = Inr st" for st
    proof -
      from that s have "st = (index_step env d p, n + 1)"
        by (auto simp: fst_scan_file split: if_splits)
      with i show ?thesis by simp
    qed
    have f6: "snd st = n + 1 \<and> (\<exists>ps. map_of (fst st) s = Some ps \<and> p \<in> set ps)"
      if "fst (scan_file_simple env p (d, n)) = Inr st" for st
    proof -
      from that s have "st = (index_step env d p, n + 1)"
        by (auto simp: fst_scan_file_simple split: if_splits)
      with i show ?thesis by simp
    qed
    have f7: "\<exists>d' ps. fst (scan_file env p (d, n)) = Inr (d', n + 1) \<and>
        map_of d' s = Some ps \<and> p \<in> set ps" if ok: "stdout_ok env"
      using i s by (simp add: fst_scan_file stdout_okD [OF ok])
    have f8: "\<exists>d' ps. fst (scan_file_simple env p (d, n)) = Inr (d', n + 1) \<and>
        map_of d' s = Some ps \<and> p \<in> set ps" if ok: "stdout_ok env"
      using i s by (simp add: fst_scan_file_simple stdout_okD [OF ok])
    from f1 f2 f3 f4 f5 f6 f7 f8 show ?thesis by blast
  qed
  have B: "(\<forall>v. fst (calculate_md5 env p) = Inr v \<longrightarrow> v = []) \<and>
      (\<forall>v. fst (calculate_md5_simple env p) = Inr v \<longrightarrow> v = None) \<and>
      (\<forall>st. fst (scan_file env p (d, n)) = Inr st \<longrightarrow> st = (d, n)) \<and>
      (\<forall>st. fst (scan_file_simple env p (d, n)) = Inr st \<longrightarrow> st = (d, n + 1)) \<and>
      (stdout_ok env \<longrightarrow>
         fst (calculate_md5 env p) = Inr [] \<and>
         fst (calculate_md5_simple env p) = Inr None \<and>
         fst (scan_file env p (d, n)) = Inr (d, n) \<and>
         fst (scan_file_simple env p (d, n)) = Inr (d, n + 1))"
    if e: "hash_file env p = Inl e" for e
  proof -
    have g1: "v = []" if "fst (calculate_md5 env p) = Inr v" for v
      using that e by (auto simp: fst_calculate_md5 split: if_splits)
    have g2: "v = None" if "fst (calculate_md5_simple env p) = Inr v" for v
      using that e by (auto simp: fst_calculate_md5_simple split: if_splits)
    have g3: "st = (d, n)" if "fst (scan_file env p (d, n)) = Inr st" for st
      using that e by (auto simp: fst_scan_file split: if_splits)
    have g4: "st = (d, n + 1)" if "fst (scan_file_simple env p (d, n)) = Inr st" for st
      using that e by (auto simp: fst_scan_file_simple split: if_splits)
    have g5: "fst (calculate_md5 env p) = Inr [] \<and>
         fst (calculate_md5_simple env p) = Inr None \<and>
         fst (scan_file env p (d, n)) = Inr (d, n) \<and>
         fst (scan_file_simple env p (d, n)) = Inr (d, n + 1)" if ok: "stdout_ok env"
      using e by (simp add: fst_calculate_md5 fst_calculate_md5_simple fst_scan_file
          fst_scan_file_simple stdout_okD [OF ok])
    from g1 g2 g3 g4 g5 show ?thesis by blast
  qed
  from A B show ?thesis by blast
qed

theorem failure_sentinel_disjoint_witness:
  "hash_file demo_env ''A/x'' = Inr digest_a \<and> length digest_a = 32 \<and>
   calculate_md5 demo_env ''A/x'' = ret digest_a \<and>
   hash_file demo_env ''A/torn'' = Inl OSError \<and>
   fst (calculate_md5 demo_env ''A/torn'') = Inr [] \<and>
   fst (calculate_md5_simple demo_env ''A/torn'') = Inr None \<and>
   fst (scan_file demo_env ''A/torn'' ([], 0)) = Inr ([], 0)"
proof -
  have s: "hash_file demo_env ''A/x'' = Inr digest_a" by (rule demo_hashes)
  have e: "hash_file demo_env ''A/torn'' = Inl OSError" by (rule demo_failures)
  note t1 = failure_sentinel_disjoint [of demo_env "''A/x''" "[]" 0,
      THEN conjunct1, rule_format, OF s]
  note t2 = failure_sentinel_disjoint [of demo_env "''A/torn''" "[]" 0,
      THEN conjunct2, rule_format, OF e]
  from t1 have 1: "length digest_a = 32" by (rule conjunct1)
  from t1 have 2: "calculate_md5 demo_env ''A/x'' = ret digest_a"
    by (elim conjE)
  from t2 have "stdout_ok demo_env \<longrightarrow>
      fst (calculate_md5 demo_env ''A/torn'') = Inr [] \<and>
      fst (calculate_md5_simple demo_env ''A/torn'') = Inr None \<and>
      fst (scan_file demo_env ''A/torn'' ([], 0)) = Inr ([], 0) \<and>
      fst (scan_file_simple demo_env ''A/torn'' ([], 0)) = Inr ([], 0 + 1)"
    by (elim conjE)
  with demo_stdout_ok have 3: "fst (calculate_md5 demo_env ''A/torn'') = Inr [] \<and>
      fst (calculate_md5_simple demo_env ''A/torn'') = Inr None \<and>
      fst (scan_file demo_env ''A/torn'' ([], 0)) = Inr ([], 0) \<and>
      fst (scan_file_simple demo_env ''A/torn'' ([], 0)) = Inr ([], 0 + 1)"
    by (rule rev_mp)
  from s e 1 2 3 show ?thesis by simp
qed

lemma utf8_walked:
  "walked_paths utf8_env ''U'' = [''U/'' @ bad_name, ''U/ok'']"
  by (simp add: walked_paths_def utf8_env_simps)

text \<open>
  What both scans get right. In every dictionary that a scan returns, a visited path is in a
  group if and only if its fingerprinting succeeded, so a file that fails is in no group and
  every readable file, before or after it, is in one; every path of a group has the digest of
  that group, and the empty string is never a key. The scans return a dictionary when standard
  output takes every message.
\<close>

lemma returned_index_skips_unreadable_files:
  "(\<forall>idx. fst (scan_directory env dir) = Inr idx \<longrightarrow>
      \<not> has_key idx [] \<and>
      (\<forall>p. in_index idx p \<longleftrightarrow>
         p \<in> set (walked_paths env (abspath env dir)) \<and> (\<exists>s. hash_file env p = Inr s)) \<and>
      (\<forall>(d, ps) \<in> set idx. \<forall>p\<in>set ps. hash_file env p = Inr d)) \<and>
   (\<forall>idx n. fst (scan_simple env dir) = Inr (idx, n) \<longrightarrow>
      \<not> has_key idx [] \<and>
      (\<forall>p. in_index idx p \<longleftrightarrow>
         p \<in> set (walked_paths env dir) \<and> (\<exists>s. hash_file env p = Inr s)) \<and>
      (\<forall>(d, ps) \<in> set idx. \<forall>p\<in>set ps. hash_file env p = Inr d)) \<and>
   (stdout_ok env \<longrightarrow>
      (\<exists>idx. fst (scan_directory env dir) = Inr idx) \<and>
      (\<exists>idx n. fst (scan_simple env dir) = Inr (idx, n)))"
proof -
  have k: "\<not> has_key (index_of env paths) []" for paths
    by (auto simp: has_key_index_of group_of_def filter_empty_conv dest: hash_file_nonempty)
  have g: "\<forall>(d, ps) \<in> set (index_of env paths). \<forall>p\<in>set ps. hash_file env p = Inr d" for paths
    by (auto simp: index_of_entry group_of_def)
  have 1: "\<not> has_key idx [] \<and>
      (\<forall>p. in_index idx p \<longleftrightarrow>
         p \<in> set (walked_paths env (abspath env dir)) \<and> (\<exists>s. hash_file env p = Inr s)) \<and>
      (\<forall>(d, ps) \<in> set idx. \<forall>p\<in>set ps. hash_file env p = Inr d)"
    if "fst (scan_directory env dir) = Inr idx" for idx
    unfolding scan_directory_Inr [OF that] using k g by (simp add: in_index_index_of)
  have 2: "\<not> has_key idx [] \<and>
      (\<forall>p. in_index idx p \<longleftrightarrow>
         p \<in> set (walked_paths env dir) \<and> (\<exists>s. hash_file env p = Inr s)) \<and>
      (\<forall>(d, ps) \<in> set idx. \<forall>p\<in>set ps. hash_file env p = Inr d)"
    if "fst (scan_simple env dir) = Inr (idx, n)" for idx n
  proof -
    from scan_simple_Inr [OF that] have "idx = index_of env (walked_paths env dir)" by simp
    then show ?thesis using k g by (simp add: in_index_index_of)
  qed
  have 3: "(\<exists>idx. fst (scan_directory env dir) = Inr idx) \<and>
      (\<exists>idx n. fst (scan_simple env dir) = Inr (idx, n))" if ok: "stdout_ok env"
    using scan_directory_ok [OF ok, of dir] scan_simple_ok [OF ok, of dir] by blast
  from 1 2 3 show ?thesis by blast
qed

text \<open>
  C3. A file whose fingerprinting fails is to be left out of the dictionary while the scan
  goes on over the remaining files. The handler of \<^verbatim>\<open>calculate_md5\<close> is there for that, but it
  prints the path of the file before it returns, and that \<^verbatim>\<open>print\<close> is not protected: for a
  name that standard output cannot encode it raises \<^verbatim>\<open>UnicodeEncodeError\<close>, which nothing
  catches. In the tree \<^verbatim>\<open>U\<close>, seen through a standard output in UTF-8, the entry that cannot be
  opened ends both scans at once: the readable file after it is never fingerprinted, no
  dictionary is returned, and the duplicate finder ends with exit status 1. Through a standard
  output that takes the message, the same tree is scanned to the end.
\<close>

theorem unprintable_failure_aborts_scan:
  "walked_paths utf8_env ''U'' = [''U/'' @ bad_name, ''U/ok''] \<and>
   hash_file utf8_env (''U/'' @ bad_name) = Inl OSError \<and>
   hash_file utf8_env ''U/ok'' = Inr digest_a \<and>
   scan_directory utf8_env ''U'' = (Inl UnicodeEncodeError, [MsgScanning ''U'']) \<and>
   compare_directories utf8_env ''U'' ''B'' =
     (Inl UnicodeEncodeError, [MsgRule, MsgStartScan, MsgRule, MsgScanning ''U'']) \<and>
   find_duplicate_files utf8_env ''U'' = (Inl UnicodeEncodeError, [MsgScanning ''U'']) \<and>
   exit_status (find_duplicate_files utf8_env ''U'') = 1 \<and>
   fst (scan_directory demo_env ''U'') = Inr [(digest_a, [''U/ok''])] \<and>
   fst (find_duplicate_files demo_env ''U'') = Inr []"
proof -
  have f: "calculate_md5 utf8_env (''U/'' @ bad_name) = (Inl UnicodeEncodeError, [])"
    "calculate_md5_simple utf8_env (''U/'' @ bad_name) = (Inl UnicodeEncodeError, [])"
    by (simp_all add: calculate_md5_def calculate_md5_simple_def utf8_env_simps bad_path_simps
        print_refused then_run_def)
  have 1: "scan_directory utf8_env ''U'' = (Inl UnicodeEncodeError, [MsgScanning ''U''])"
    using f(1)
    by (simp add: scan_directory_def scan_file_def Let_def then_run_def utf8_env_simps
        print_accepted utf8_refuses)
  have 2: "compare_directories utf8_env ''U'' ''B'' =
     (Inl UnicodeEncodeError, [MsgRule, MsgStartScan, MsgRule, MsgScanning ''U''])"
    by (simp add: compare_directories_def 1 then_run_def utf8_env_simps print_accepted
        utf8_refuses)
  have 3: "find_duplicate_files utf8_env ''U'' = (Inl UnicodeEncodeError, [MsgScanning ''U''])"
    using f(2)
    by (simp add: find_duplicate_files_def scan_simple_def scan_file_simple_def Let_def
        then_run_def ret_def utf8_env_simps print_accepted utf8_refuses)
  have 4: "exit_status (find_duplicate_files utf8_env ''U'') = 1"
    by (simp add: 3 exit_status_def)
  have w: "walked_paths demo_env ''U'' = [''U/'' @ bad_name, ''U/ok'']"
    by (simp add: walked_paths_def demo_env_simps)
  have i: "index_of demo_env (walked_paths demo_env ''U'') = [(digest_a, [''U/ok''])]"
    unfolding w by (simp add: index_of_def index_step_def demo_hashes bad_path_simps)
  have 5: "fst (scan_directory demo_env ''U'') = Inr [(digest_a, [''U/ok''])]"
    using i by (simp add: scan_directory_ok [OF demo_stdout_ok] demo_env_simps)
  have 6: "fst (find_duplicate_files demo_env ''U'') = Inr []"
    using i by (simp add: find_duplicate_files_ok [OF demo_stdout_ok] demo_env_simps)
  from utf8_walked 1 2 3 4 5 6 show ?thesis
    by (simp add: utf8_env_simps bad_path_simps demo_hashes)
qed

section \<open>The shape of the groups\<close>

text \<open>
  C8. Every group of a result of \<^verbatim>\<open>compare_directories\<close> has a path on both sides. Every
  group of a result of the duplicate finder, which has one list of paths and no second side,
  has more than one path. Both functions return a result when standard output takes every
  message (and, for the duplicate finder, the root is a directory).
\<close>

theorem match_group_shapes:
  "(stdout_ok env \<longrightarrow> (\<exists>r. fst (compare_directories env dir1 dir2) = Inr r)) \<and>
   (\<forall>r. fst (compare_directories env dir1 dir2) = Inr r \<longrightarrow>
      (\<forall>(d, sideA, sideB) \<in> set r. sideA \<noteq> [] \<and> sideB \<noteq> [])) \<and>
   (stdout_ok env \<and> path_exists env dir \<and> path_isdir env dir \<longrightarrow>
      (\<exists>dups. fst (find_duplicate_files env dir) = Inr dups)) \<and>
   (\<forall>dups. fst (find_duplicate_files env dir) = Inr dups \<longrightarrow>
      (\<forall>(d, paths) \<in> set dups. 1 < length paths))"
proof -
  let ?A = "index_of env (walked_paths env (abspath env dir1))"
  let ?B = "index_of env (walked_paths env (abspath env dir2))"
  have ne: "the (map_of (index_of env paths) k) \<noteq> []" if "k \<in> set (keys (index_of env paths))"
    for paths k
  proof -
    from that have "has_key (index_of env paths) k" by (simp add: has_key_def)
    then show ?thesis by (simp add: has_key_index_of map_of_index_of)
  qed
  have 1: "\<exists>r. fst (compare_directories env dir1 dir2) = Inr r" if "stdout_ok env"
    using compare_directories_ok [OF that] by blast
  have 2: "\<forall>(d, sideA, sideB) \<in> set r. sideA \<noteq> [] \<and> sideB \<noteq> []"
    if r: "fst (compare_directories env dir1 dir2) = Inr r" for r
  proof -
    have "\<forall>(d, sideA, sideB) \<in> set (map (\<lambda>k. (k, the (map_of ?A k), the (map_of ?B k)))
        (sorted_list_of_set (set (keys ?A) \<inter> set (keys ?B)))). sideA \<noteq> [] \<and> sideB \<noteq> []"
      by (auto simp: ne)
    then show ?thesis
      by (simp only: compare_directories_Inr(3) [OF r, symmetric])
  qed
  have 3: "\<exists>dups. fst (find_duplicate_files env dir) = Inr dups"
    if "stdout_ok env \<and> path_exists env dir \<and> path_isdir env dir"
    using that find_duplicate_files_ok [of env dir] by blast
  have 4: "\<forall>(d, paths) \<in> set dups. 1 < length paths"
    if d: "fst (find_duplicate_files env dir) = Inr dups" for dups
    unfolding find_duplicate_files_Inr(4) [OF d] by auto
  from 1 2 3 4 show ?thesis by blast
qed

theorem match_group_shapes_witness:
  "path_exists demo_env ''A'' \<and> path_isdir demo_env ''A'' \<and>
   fst (find_duplicate_files demo_env ''A'') =
     Inr [(digest_empty, [''A/e1'', ''A/sub/e2'']), (digest_a, [''A/x'', ''A/sub/y''])] \<and>
   1 < length [''A/e1'', ''A/sub/e2''] \<and> 1 < length [''A/x'', ''A/sub/y''] \<and>
   fst (compare_directories demo_env ''A'' ''B'') =
     Inr [(digest_a, [''A/x'', ''A/sub/y''], [''B/z'']),
          (digest_empty, [''A/e1'', ''A/sub/e2''], [''B/e3''])] \<and>
   [''B/z''] \<noteq> [] \<and> [''B/e3''] \<noteq> []"
proof -
  have ok: "stdout_ok demo_env \<and> path_exists demo_env ''A'' \<and> path_isdir demo_env ''A''"
    by (simp add: demo_env_simps demo_stdout_ok)
  note t = match_group_shapes [of demo_env "''A''" "''B''" "''A''"]
  from t demo_stdout_ok obtain r where r0: "fst (compare_directories demo_env ''A'' ''B'') = Inr r"
    by blast
  from t r0 have r: "\<forall>(d, sideA, sideB) \<in> set r. sideA \<noteq> [] \<and> sideB \<noteq> []"
    by blast
  from r0 have r': "r = [(digest_a, [''A/x'', ''A/sub/y''], [''B/z'']),
      (digest_empty, [''A/e1'', ''A/sub/e2''], [''B/e3''])]"
    by (simp add: demo_compare)
  from t ok obtain dups where d0: "fst (find_duplicate_files demo_env ''A'') = Inr dups"
    by blast
  from t d0 have d: "\<forall>(d, paths) \<in> set dups. 1 < length paths"
    by blast
  from d0 have d': "dups = [(digest_empty, [''A/e1'', ''A/sub/e2'']),
      (digest_a, [''A/x'', ''A/sub/y''])]"
    by (simp add: demo_duplicates)
  from r have "[''B/z''] \<noteq> [] \<and> [''B/e3''] \<noteq> ([] :: path list)"
    unfolding r' by simp
  moreover from d have "1 < length [''A/e1'', ''A/sub/e2''] \<and> 1 < length [''A/x'', ''A/sub/y'']"
    unfolding d' by simp
  ultimately show ?thesis
    using ok r0 d0 unfolding r' d' by blast
qed

section \<open>Matching and duplicates\<close>

text \<open>
  C1. With \<open>A\<close> and \<open>B\<close> the dictionaries that the scans of the two directories build, a
  result of \<^verbatim>\<open>compare_directories\<close> has one group for each digest that is a key of both and
  for no other digest, and the group of a digest carries \<open>A[d]\<close> and \<open>B[d]\<close> as its two sides.
  The subscripts of the result loop never raise \<^verbatim>\<open>KeyError\<close>: the comparison returns a result
  when standard output takes every message.
\<close>

theorem compare_directories_matches:
  "(stdout_ok env \<longrightarrow> (\<exists>r. fst (compare_directories env dir1 dir2) = Inr r)) \<and>
   (\<forall>r. fst (compare_directories env dir1 dir2) = Inr r \<longrightarrow>
      (\<exists>A B.
         fst (scan_directory env dir1) = Inr A \<and>
         fst (scan_directory env dir2) = Inr B \<and>
         distinct (map fst r) \<and>
         (\<forall>d. d \<in> fst ` set r \<longleftrightarrow> has_key A d \<and> has_key B d) \<and>
         (\<forall>(d, sideA, sideB) \<in> set r. map_of A d = Some sideA \<and> map_of B d = Some sideB)))"
proof (intro conjI allI impI)
  assume "stdout_ok env"
  from compare_directories_ok [OF this]
  show "\<exists>r. fst (compare_directories env dir1 dir2) = Inr r" by blast
next
  fix r0 assume r0: "fst (compare_directories env dir1 dir2) = Inr r0"
  define A where "A = index_of env (walked_paths env (abspath env dir1))"
  define B where "B = index_of env (walked_paths env (abspath env dir2))"
  define ks where "ks = sorted_list_of_set (set (keys A) \<inter> set (keys B))"
  define r where "r = map (\<lambda>k. (k, the (map_of A k), the (map_of B k))) ks"
  have ks: "set ks = set (keys A) \<inter> set (keys B)" and dks: "distinct ks"
    by (simp_all add: ks_def)
  have fr: "map fst r = ks"
    by (simp add: r_def comp_def)
  have 1: "fst (scan_directory env dir1) = Inr A" "fst (scan_directory env dir2) = Inr B"
    using compare_directories_Inr(1,2) [OF r0] by (simp_all add: A_def B_def)
  have 2: "r0 = r"
    using compare_directories_Inr(3) [OF r0] by (simp add: r_def ks_def A_def B_def)
  have 3: "distinct (map fst r)" by (simp add: fr dks)
  have "fst ` set r = set ks" using fr by (metis set_map)
  then have 4: "\<forall>d. d \<in> fst ` set r \<longleftrightarrow> has_key A d \<and> has_key B d"
    by (simp add: ks has_key_def)
  have 5: "\<forall>(d, sideA, sideB) \<in> set r. map_of A d = Some sideA \<and> map_of B d = Some sideB"
  proof (clarify)
    fix d a b assume "(d, a, b) \<in> set r"
    then have d: "d \<in> set ks" and a: "a = the (map_of A d)" and b: "b = the (map_of B d)"
      by (auto simp: r_def)
    from d ks have "has_key A d" "has_key B d" by (simp_all add: has_key_def)
    then show "map_of A d = Some a \<and> map_of B d = Some b"
      by (auto simp: has_key_map_of a b)
  qed
  from 1 3 4 5 show "\<exists>A B.
         fst (scan_directory env dir1) = Inr A \<and>
         fst (scan_directory env dir2) = Inr B \<and>
         distinct (map fst r0) \<and>
         (\<forall>d. d \<in> fst ` set r0 \<longleftrightarrow> has_key A d \<and> has_key B d) \<and>
         (\<forall>(d, sideA, sideB) \<in> set r0. map_of A d = Some sideA \<and> map_of B d = Some sideB)"
    unfolding 2 by blast
qed

text \<open>
  C2. A digest has a group in a result of \<^verbatim>\<open>find_duplicate_files\<close> if and only if the
  dictionary of the scan lists more than one path for it; the group is that list, and a digest
  with one path has no group. The paths of a list are distinct when the traversal visits no
  path twice, and then "more than one path" is "at least two distinct paths". The function
  returns a result when the root is a directory and standard output takes every message.
\<close>

theorem find_duplicate_files_groups:
  "(stdout_ok env \<and> path_exists env dir \<and> path_isdir env dir \<longrightarrow>
      (\<exists>dups. fst (find_duplicate_files env dir) = Inr dups)) \<and>
   (\<forall>dups. fst (find_duplicate_files env dir) = Inr dups \<longrightarrow>
      (\<exists>idx n.
         fst (scan_simple env dir) = Inr (idx, n) \<and>
         distinct (keys dups) \<and>
         (\<forall>d. has_key dups d \<longleftrightarrow> (\<exists>ps. map_of idx d = Some ps \<and> 1 < length ps)) \<and>
         (\<forall>d. has_key dups d \<longrightarrow> map_of dups d = map_of idx d) \<and>
         (\<forall>d p. map_of idx d = Some [p] \<longrightarrow> \<not> has_key dups d) \<and>
         (distinct (walked_paths env dir) \<longrightarrow>
            (\<forall>d. has_key dups d \<longleftrightarrow>
               (\<exists>ps. map_of idx d = Some ps \<and> 2 \<le> card (set ps))))))"
proof (intro conjI allI impI)
  assume "stdout_ok env \<and> path_exists env dir \<and> path_isdir env dir"
  then show "\<exists>dups. fst (find_duplicate_files env dir) = Inr dups"
    using find_duplicate_files_ok [of env dir] by blast
next
  fix dups0 assume d0: "fst (find_duplicate_files env dir) = Inr dups0"
  define idx where "idx = index_of env (walked_paths env dir)"
  define dups where "dups = filter (\<lambda>(md5, paths). length paths > 1) idx"
  obtain n where 1: "fst (scan_simple env dir) = Inr (idx, n)"
    using find_duplicate_files_Inr(3) [OF d0] by (auto simp: idx_def)
  have 2: "dups0 = dups"
    using find_duplicate_files_Inr(4) [OF d0] by (simp add: dups_def idx_def)
  have di: "distinct (keys idx)" by (simp add: idx_def distinct_keys_index_of)
  have 3: "distinct (keys dups)"
    unfolding dups_def by (simp add: keys_filter [OF di] di)
  have m: "map_of dups d =
      (case map_of idx d of None \<Rightarrow> None | Some v \<Rightarrow> if 1 < length v then Some v else None)"
    for d
    unfolding dups_def by (simp add: map_of_filter_distinct [OF di] split: option.splits)
  have 4: "\<forall>d. has_key dups d \<longleftrightarrow> (\<exists>ps. map_of idx d = Some ps \<and> 1 < length ps)"
    by (auto simp: has_key_map_of m split: option.splits)
  have 5: "\<forall>d. has_key dups d \<longrightarrow> map_of dups d = map_of idx d"
    by (auto simp: has_key_map_of m split: option.splits if_splits)
  have 6: "\<forall>d p. map_of idx d = Some [p] \<longrightarrow> \<not> has_key dups d"
    by (auto simp: has_key_map_of m)
  have 7: "\<forall>d. has_key dups d \<longleftrightarrow> (\<exists>ps. map_of idx d = Some ps \<and> 2 \<le> card (set ps))"
    if dist: "distinct (walked_paths env dir)"
  proof -
    have "card (set ps) = length ps" if "map_of idx d = Some ps" for d ps
    proof -
      from that have "ps = group_of env (walked_paths env dir) d"
        by (auto simp: idx_def map_of_index_of split: if_splits)
      with dist have "distinct ps" by (simp add: group_of_def)
      then show ?thesis by (rule distinct_card)
    qed
    with 4 show ?thesis by auto
  qed
  from 1 3 4 5 6 7 show "\<exists>idx n.
         fst (scan_simple env dir) = Inr (idx, n) \<and>
         distinct (keys dups0) \<and>
         (\<forall>d. has_key dups0 d \<longleftrightarrow> (\<exists>ps. map_of idx d = Some ps \<and> 1 < length ps)) \<and>
         (\<forall>d. has_key dups0 d \<longrightarrow> map_of dups0 d = map_of idx d) \<and>
         (\<forall>d p. map_of idx d = Some [p] \<longrightarrow> \<not> has_key dups0 d) \<and>
         (distinct (walked_paths env dir) \<longrightarrow>
            (\<forall>d. has_key dups0 d \<longleftrightarrow>
               (\<exists>ps. map_of idx d = Some ps \<and> 2 \<le> card (set ps))))"
    unfolding 2 by blast
qed

theorem compare_directories_matches_witness:
  "fst (compare_directories demo_env ''A'' ''B'') =
     Inr [(digest_a, [''A/x'', ''A/sub/y''], [''B/z'']),
          (digest_empty, [''A/e1'', ''A/sub/e2''], [''B/e3''])] \<and>
   (\<exists>A B. fst (scan_directory demo_env ''A'') = Inr A \<and>
      fst (scan_directory demo_env ''B'') = Inr B \<and>
      has_key A digest_a \<and> has_key B digest_a \<and>
      map_of A digest_a = Some [''A/x'', ''A/sub/y''] \<and>
      map_of B digest_a = Some [''B/z''])"
proof -
  note t = compare_directories_matches [of demo_env "''A''" "''B''"]
  from t demo_stdout_ok obtain r where r: "fst (compare_directories demo_env ''A'' ''B'') = Inr r"
    by blast
  from t r obtain A B where A: "fst (scan_directory demo_env ''A'') = Inr A"
    and B: "fst (scan_directory demo_env ''B'') = Inr B"
    and k: "\<forall>d. d \<in> fst ` set r \<longleftrightarrow> has_key A d \<and> has_key B d"
    and m: "\<forall>(d, sideA, sideB) \<in> set r. map_of A d = Some sideA \<and> map_of B d = Some sideB"
    by blast
  from r have r': "r = [(digest_a, [''A/x'', ''A/sub/y''], [''B/z'']),
      (digest_empty, [''A/e1'', ''A/sub/e2''], [''B/e3''])]"
    by (simp add: demo_compare)
  from m have "map_of A digest_a = Some [''A/x'', ''A/sub/y'']"
    and "map_of B digest_a = Some [''B/z'']"
    unfolding r' by simp_all
  moreover have "digest_a \<in> fst ` set r" unfolding r' by simp
  with k have "has_key A digest_a \<and> has_key B digest_a" by blast
  ultimately show ?thesis using A B by (simp add: demo_compare)
qed

theorem find_duplicate_files_groups_witness:
  "stdout_ok demo_env \<and> path_exists demo_env ''B'' \<and> path_isdir demo_env ''B'' \<and>
   distinct (walked_paths demo_env ''B'') \<and>
   (\<exists>idx n dups. fst (scan_simple demo_env ''B'') = Inr (idx, n) \<and>
      fst (find_duplicate_files demo_env ''B'') = Inr dups \<and>
      map_of idx digest_a = Some [''B/z''] \<and> \<not> has_key dups digest_a)"
proof -
  have ok: "stdout_ok demo_env \<and> path_exists demo_env ''B'' \<and> path_isdir demo_env ''B''"
    by (simp add: demo_env_simps demo_stdout_ok)
  have w: "distinct (walked_paths demo_env ''B'')"
    by (simp add: walked_paths_def demo_env_simps)
  note t = find_duplicate_files_groups [of demo_env "''B''"]
  from t [THEN conjunct1] ok
  obtain dups where d: "fst (find_duplicate_files demo_env ''B'') = Inr dups"
    by blast
  from t [THEN conjunct2, rule_format, OF d]
  obtain idx n where i: "fst (scan_simple demo_env ''B'') = Inr (idx, n)"
    and s: "\<forall>d p. map_of idx d = Some [p] \<longrightarrow> \<not> has_key dups d"
    by (elim exE conjE) (rule that)
  from scan_simple_Inr [OF i]
  have "idx = index_of demo_env (walked_paths demo_env ''B'')" by simp
  then have m: "map_of idx digest_a = Some [''B/z'']"
    using demo_index_B by simp
  with s have "\<not> has_key dups digest_a" by blast
  with ok w i d m show ?thesis by blast
qed

text \<open>
  C4 as stated fails for the duplicate finder: in the example, the empty files are met before
  the files with the byte \<^verbatim>\<open>a\<close>, and the groups come out in that order, the digest
  \<^verbatim>\<open>d41d...\<close> before the digest \<^verbatim>\<open>0cc1...\<close>.
\<close>

theorem duplicate_groups_not_sorted:
  "fst (find_duplicate_files demo_env ''A'') =
     Inr [(digest_empty, [''A/e1'', ''A/sub/e2'']), (digest_a, [''A/x'', ''A/sub/y''])] \<and>
   \<not> sorted (keys [(digest_empty, [''A/e1'', ''A/sub/e2'']),
                     (digest_a, [''A/x'', ''A/sub/y''])])"
  using digest_order by (simp add: demo_duplicates keys_def)

lemma hash_file_walk_update [simp]: "hash_file (env\<lparr>walk := w\<rparr>) p = hash_file env p"
  by (simp add: hash_file_def os_open_def)

lemma stdout_ok_walk_update [simp]: "stdout_ok (env\<lparr>walk := w\<rparr>) = stdout_ok env"
  by (simp add: stdout_ok_def)

lemma set_keys_index_of:
  "set (keys (index_of env ps)) = {d. \<exists>p\<in>set ps. hash_file env p = Inr d}"
proof -
  have "d \<in> set (keys (index_of env ps)) \<longleftrightarrow> (\<exists>p\<in>set ps. hash_file env p = Inr d)" for d
    using has_key_index_of [of env ps d]
    by (simp add: has_key_def group_of_def filter_empty_conv)
  then show ?thesis by blast
qed

lemma set_keys_index_of_cong:
  "set ps = set qs \<Longrightarrow>
   set (keys (index_of (env\<lparr>walk := w\<rparr>) ps)) = set (keys (index_of env qs))"
  by (simp add: set_keys_index_of)

lemma sort_enumeration:
  "distinct es \<Longrightarrow> sort es = sorted_list_of_set (set es)"
  by (simp add: sorted_list_of_set_sort_remdups distinct_remdups_id)

lemma fst_compare_directories:
  "map fst (map (\<lambda>k. (k, f k, g k)) ks) = ks"
  by (simp add: comp_def)

text \<open>
  C4, amended. The groups of a result of \<^verbatim>\<open>compare_directories\<close> are in strictly ascending
  order of their digests, compared character by character; the order is the same for every
  order in which the set of common digests may be enumerated and for every traversal that
  visits the same paths. \<^verbatim>\<open>find_duplicate_files\<close> does not sort: the groups of its result are
  in the order in which their digests were first met by the traversal. Both functions return a
  result when standard output takes every message (and, for the duplicate finder, the root is
  a directory).
\<close>

theorem groups_order:
  "(stdout_ok env \<longrightarrow> (\<exists>r. fst (compare_directories env dir1 dir2) = Inr r)) \<and>
   (\<forall>r. fst (compare_directories env dir1 dir2) = Inr r \<longrightarrow>
      sorted (map fst r) \<and> distinct (map fst r) \<and>
      (\<forall>es. distinct es \<and> set es = set (map fst r) \<longrightarrow> sort es = map fst r) \<and>
      (\<forall>w. set (walked_paths (env\<lparr>walk := w\<rparr>) (abspath env dir1)) =
              set (walked_paths env (abspath env dir1)) \<and>
            set (walked_paths (env\<lparr>walk := w\<rparr>) (abspath env dir2)) =
              set (walked_paths env (abspath env dir2)) \<longrightarrow>
         (stdout_ok env \<longrightarrow>
            (\<exists>r'. fst (compare_directories (env\<lparr>walk := w\<rparr>) dir1 dir2) = Inr r')) \<and>
         (\<forall>r'. fst (compare_directories (env\<lparr>walk := w\<rparr>) dir1 dir2) = Inr r' \<longrightarrow>
            map fst r' = map fst r))) \<and>
   (stdout_ok env \<and> path_exists env dir \<and> path_isdir env dir \<longrightarrow>
      (\<exists>dups. fst (find_duplicate_files env dir) = Inr dups)) \<and>
   (\<forall>dups. fst (find_duplicate_files env dir) = Inr dups \<longrightarrow>
      keys dups =
        filter (\<lambda>d. 1 < length (group_of env (walked_paths env dir) d))
          (first_seen (digests env (walked_paths env dir))))"
proof -
  define A where "A = index_of env (walked_paths env (abspath env dir1))"
  define B where "B = index_of env (walked_paths env (abspath env dir2))"
  define ks where "ks = sorted_list_of_set (set (keys A) \<inter> set (keys B))"
  have 1: "\<exists>r. fst (compare_directories env dir1 dir2) = Inr r" if "stdout_ok env"
    using compare_directories_ok [OF that] by blast
  have 2: "sorted (map fst r) \<and> distinct (map fst r) \<and>
      (\<forall>es. distinct es \<and> set es = set (map fst r) \<longrightarrow> sort es = map fst r) \<and>
      (\<forall>w. set (walked_paths (env\<lparr>walk := w\<rparr>) (abspath env dir1)) =
              set (walked_paths env (abspath env dir1)) \<and>
            set (walked_paths (env\<lparr>walk := w\<rparr>) (abspath env dir2)) =
              set (walked_paths env (abspath env dir2)) \<longrightarrow>
         (stdout_ok env \<longrightarrow>
            (\<exists>r'. fst (compare_directories (env\<lparr>walk := w\<rparr>) dir1 dir2) = Inr r')) \<and>
         (\<forall>r'. fst (compare_directories (env\<lparr>walk := w\<rparr>) dir1 dir2) = Inr r' \<longrightarrow>
            map fst r' = map fst r))"
    if r: "fst (compare_directories env dir1 dir2) = Inr r" for r
  proof -
    have fr: "map fst r = ks"
      unfolding compare_directories_Inr(3) [OF r] fst_compare_directories ks_def A_def B_def ..
    have a: "sorted (map fst r)" "distinct (map fst r)"
      by (simp_all add: fr ks_def)
    have b: "\<forall>es. distinct es \<and> set es = set (map fst r) \<longrightarrow> sort es = map fst r"
    proof (intro allI impI)
      fix es :: "string list" assume es: "distinct es \<and> set es = set (map fst r)"
      then have "sort es = sorted_list_of_set (set (map fst r))"
        by (simp add: sort_enumeration)
      also have "\<dots> = ks" by (simp add: fr ks_def)
      finally show "sort es = map fst r" by (simp add: fr)
    qed
    have c: "(stdout_ok env \<longrightarrow>
            (\<exists>r'. fst (compare_directories (env\<lparr>walk := w\<rparr>) dir1 dir2) = Inr r')) \<and>
         (\<forall>r'. fst (compare_directories (env\<lparr>walk := w\<rparr>) dir1 dir2) = Inr r' \<longrightarrow>
            map fst r' = map fst r)"
      if w: "set (walked_paths (env\<lparr>walk := w\<rparr>) (abspath env dir1)) =
               set (walked_paths env (abspath env dir1)) \<and>
             set (walked_paths (env\<lparr>walk := w\<rparr>) (abspath env dir2)) =
               set (walked_paths env (abspath env dir2))" for w
    proof -
      let ?e = "env\<lparr>walk := w\<rparr>"
      let ?A = "index_of ?e (walked_paths ?e (abspath ?e dir1))"
      let ?B = "index_of ?e (walked_paths ?e (abspath ?e dir2))"
      have ab: "set (keys ?A) = set (keys A)" "set (keys ?B) = set (keys B)"
        using w by (simp_all add: A_def B_def set_keys_index_of_cong)
      have c1: "\<exists>r'. fst (compare_directories ?e dir1 dir2) = Inr r'" if ok: "stdout_ok env"
      proof -
        from ok have "stdout_ok ?e" by simp
        from compare_directories_ok [OF this] show ?thesis by blast
      qed
      have c2: "map fst r' = map fst r"
        if r': "fst (compare_directories ?e dir1 dir2) = Inr r'" for r'
      proof -
        have "map fst r' = sorted_list_of_set (set (keys ?A) \<inter> set (keys ?B))"
          unfolding compare_directories_Inr(3) [OF r'] fst_compare_directories ..
        also have "\<dots> = ks" unfolding ab ks_def ..
        finally show ?thesis by (simp only: fr)
      qed
      from c1 c2 show ?thesis by blast
    qed
    from a b c show ?thesis by blast
  qed
  have 3: "\<exists>dups. fst (find_duplicate_files env dir) = Inr dups"
    if "stdout_ok env \<and> path_exists env dir \<and> path_isdir env dir"
    using that find_duplicate_files_ok [of env dir] by blast
  have 4: "keys dups =
        filter (\<lambda>d. 1 < length (group_of env (walked_paths env dir) d))
          (first_seen (digests env (walked_paths env dir)))"
    if d: "fst (find_duplicate_files env dir) = Inr dups" for dups
  proof -
    define idx where "idx = index_of env (walked_paths env dir)"
    have di: "distinct (keys idx)" by (simp add: idx_def distinct_keys_index_of)
    have "(\<exists>v. (k, v) \<in> set idx \<and> (case (k, v) of (md5, paths) \<Rightarrow> length paths > 1)) \<longleftrightarrow>
        1 < length (group_of env (walked_paths env dir) k)" for k
      by (auto simp: idx_def index_of_entry)
    then have "keys (filter (\<lambda>(md5, paths). length paths > 1) idx) =
        filter (\<lambda>d. 1 < length (group_of env (walked_paths env dir) d)) (keys idx)"
      by (simp only: keys_filter [OF di])
    then show ?thesis
      unfolding find_duplicate_files_Inr(4) [OF d] by (simp add: idx_def keys_index_of)
  qed
  from 1 2 3 4 show ?thesis by blast
qed

theorem groups_order_witness:
  "fst (compare_directories demo_env ''A'' ''B'') =
     Inr [(digest_a, [''A/x'', ''A/sub/y''], [''B/z'']),
          (digest_empty, [''A/e1'', ''A/sub/e2''], [''B/e3''])] \<and>
   sorted [digest_a, digest_empty] \<and>
   sort [digest_empty, digest_a] = [digest_a, digest_empty] \<and>
   stdout_ok demo_env \<and> path_exists demo_env ''A'' \<and> path_isdir demo_env ''A'' \<and>
   (\<exists>dups. fst (find_duplicate_files demo_env ''A'') = Inr dups \<and>
      keys dups = [digest_empty, digest_a] \<and>
      first_seen (digests demo_env (walked_paths demo_env ''A'')) = [digest_empty, digest_a])"
proof -
  have ok: "stdout_ok demo_env \<and> path_exists demo_env ''A'' \<and> path_isdir demo_env ''A''"
    by (simp add: demo_env_simps demo_stdout_ok)
  note t = groups_order [of demo_env "''A''" "''B''" "''A''"]
  note t1 = t [THEN conjunct1]
  note t2 = t [THEN conjunct2, THEN conjunct1]
  note t3 = t [THEN conjunct2, THEN conjunct2, THEN conjunct1]
  note t4 = t [THEN conjunct2, THEN conjunct2, THEN conjunct2]
  from t1 demo_stdout_ok obtain r where r0: "fst (compare_directories demo_env ''A'' ''B'') = Inr r"
    by blast
  from t2 [rule_format, OF r0] have s: "sorted (map fst r)"
    and e: "\<forall>es. distinct es \<and> set es = set (map fst r) \<longrightarrow> sort es = map fst r"
    by blast+
  from r0 have r': "r = [(digest_a, [''A/x'', ''A/sub/y''], [''B/z'']),
      (digest_empty, [''A/e1'', ''A/sub/e2''], [''B/e3''])]"
    by (simp add: demo_compare)
  have fr: "map fst r = [digest_a, digest_empty]" by (simp add: r')
  from s have 1: "sorted [digest_a, digest_empty]" by (simp only: fr)
  have "distinct [digest_empty, digest_a] \<and> set [digest_empty, digest_a] = set (map fst r)"
    using digest_order by (auto simp: fr)
  with e have 2: "sort [digest_empty, digest_a] = [digest_a, digest_empty]"
    unfolding fr by blast
  from t3 ok obtain dups where d0: "fst (find_duplicate_files demo_env ''A'') = Inr dups"
    by blast
  from t4 [rule_format, OF d0]
  have k: "keys dups = filter (\<lambda>d. 1 < length (group_of demo_env (walked_paths demo_env ''A'') d))
        (first_seen (digests demo_env (walked_paths demo_env ''A'')))" .
  from d0 have d': "dups = [(digest_empty, [''A/e1'', ''A/sub/e2'']),
      (digest_a, [''A/x'', ''A/sub/y''])]"
    by (simp add: demo_duplicates)
  have 3: "keys dups = [digest_empty, digest_a]" by (simp add: d' keys_def)
  have "keys (index_of demo_env (walked_paths demo_env ''A'')) = [digest_empty, digest_a]"
    using demo_index_A by (simp add: keys_def demo_env_simps)
  then have 4: "first_seen (digests demo_env (walked_paths demo_env ''A'')) =
      [digest_empty, digest_a]"
    by (simp add: keys_index_of)
  from r0 1 2 ok d0 3 4 show ?thesis unfolding r' by blast
qed

text \<open>
  C7 as stated fails for compare_resources.py: for a first root that is no directory, \<^verbatim>\<open>main\<close>
  prints the error and returns, so the process ends with exit status 0.
\<close>

theorem main_invalid_root_exit_status:
  "\<not> path_isdir demo_env ''nowhere'' \<and>
   main demo_env ''nowhere'' ''B'' ''out.xlsx'' = (Inr (), [MsgErrNoDir ''nowhere'']) \<and>
   exit_status (main demo_env ''nowhere'' ''B'' ''out.xlsx'') = 0"
  by (simp add: main_def demo_env_simps print_def exit_status_def)

text \<open>
  C7, amended. When a root does not exist or is not a directory, no scan of any tree is begun:
  both tools print nothing but the one error message, and \<^verbatim>\<open>find_duplicate_files\<close> ends the
  process with exit status 1, through \<^verbatim>\<open>sys.exit(1)\<close> when the message could be printed.
  As long as standard output takes every message, files that cannot be read do not make the
  exit status non-zero: with a valid root the duplicate finder returns, and with valid roots
  the comparison ends with status 0 whenever creating the output directory and writing the
  spreadsheet succeed.
\<close>

theorem invalid_root_stops_before_scanning:
  "(\<not> path_exists env dir \<and> stdout_accepts env (MsgErrNotExists dir) \<longrightarrow>
      find_duplicate_files env dir = (Inl (SystemExit 1), [MsgErrNotExists dir])) \<and>
   (path_exists env dir \<and> \<not> path_isdir env dir \<and> stdout_accepts env (MsgErrNotDir dir) \<longrightarrow>
      find_duplicate_files env dir = (Inl (SystemExit 1), [MsgErrNotDir dir])) \<and>
   (\<not> (path_exists env dir \<and> path_isdir env dir) \<longrightarrow>
      exit_status (find_duplicate_files env dir) = 1 \<and>
      set (snd (find_duplicate_files env dir)) \<subseteq> {MsgErrNotExists dir, MsgErrNotDir dir}) \<and>
   (\<not> path_isdir env dir1 \<and> stdout_accepts env (MsgErrNoDir dir1) \<longrightarrow>
      snd (main env dir1 dir2 out) = [MsgErrNoDir dir1]) \<and>
   (path_isdir env dir1 \<and> \<not> path_isdir env dir2 \<and> stdout_accepts env (MsgErrNoDir dir2) \<longrightarrow>
      snd (main env dir1 dir2 out) = [MsgErrNoDir dir2]) \<and>
   (\<not> (path_isdir env dir1 \<and> path_isdir env dir2) \<longrightarrow>
      set (snd (main env dir1 dir2 out)) \<subseteq> {MsgErrNoDir dir1, MsgErrNoDir dir2}) \<and>
   (stdout_ok env \<and> path_exists env dir \<and> path_isdir env dir \<longrightarrow>
      exit_status (find_duplicate_files env dir) = 0) \<and>
   (stdout_ok env \<and> path_isdir env dir1 \<and> path_isdir env dir2 \<and>
    (\<forall>d. makedirs_ok env d) \<and> (\<forall>r p. export_ok env r p) \<longrightarrow>
      exit_status (main env dir1 dir2 out) = 0)"
proof -
  have 1: "find_duplicate_files env dir = (Inl (SystemExit 1), [MsgErrNotExists dir])"
    if "\<not> path_exists env dir \<and> stdout_accepts env (MsgErrNotExists dir)"
    using that by (simp add: find_duplicate_files_def then_run_def print_def raise_def)
  have 2: "find_duplicate_files env dir = (Inl (SystemExit 1), [MsgErrNotDir dir])"
    if "path_exists env dir \<and> \<not> path_isdir env dir \<and> stdout_accepts env (MsgErrNotDir dir)"
    using that by (simp add: find_duplicate_files_def then_run_def print_def raise_def)
  have 3: "exit_status (find_duplicate_files env dir) = 1 \<and>
      set (snd (find_duplicate_files env dir)) \<subseteq> {MsgErrNotExists dir, MsgErrNotDir dir}"
    if "\<not> (path_exists env dir \<and> path_isdir env dir)"
    using that
    by (auto simp: find_duplicate_files_def then_run_def print_def raise_def exit_status_def)
  have 4: "snd (main env dir1 dir2 out) = [MsgErrNoDir dir1]"
    if "\<not> path_isdir env dir1 \<and> stdout_accepts env (MsgErrNoDir dir1)"
    using that by (simp add: main_def print_def)
  have 5: "snd (main env dir1 dir2 out) = [MsgErrNoDir dir2]"
    if "path_isdir env dir1 \<and> \<not> path_isdir env dir2 \<and> stdout_accepts env (MsgErrNoDir dir2)"
    using that by (simp add: main_def print_def)
  have 6: "set (snd (main env dir1 dir2 out)) \<subseteq> {MsgErrNoDir dir1, MsgErrNoDir dir2}"
    if "\<not> (path_isdir env dir1 \<and> path_isdir env dir2)"
    using that by (auto simp: main_def print_def raise_def)
  have 7: "exit_status (find_duplicate_files env dir) = 0"
    if "stdout_ok env \<and> path_exists env dir \<and> path_isdir env dir"
    using that by (simp add: exit_status_def find_duplicate_files_ok)
  have 8: "exit_status (main env dir1 dir2 out) = 0"
    if a: "stdout_ok env \<and> path_isdir env dir1 \<and> path_isdir env dir2 \<and>
      (\<forall>d. makedirs_ok env d) \<and> (\<forall>r p. export_ok env r p)"
  proof -
    from a have ok: "stdout_ok env" by simp
    obtain r where c: "fst (compare_directories env dir1 dir2) = Inr r"
      using compare_directories_ok [OF ok] by blast
    have "fst (main env dir1 dir2 out) = Inr ()"
      using a by (simp add: main_def c fst_run stdout_okD [OF ok] Let_def)
    then show ?thesis
      by (simp add: exit_status_def)
  qed
  from 1 2 3 4 5 6 7 8 show ?thesis by blast
qed

theorem invalid_root_stops_before_scanning_witness:
  "\<not> path_exists demo_env ''nowhere'' \<and>
   find_duplicate_files demo_env ''nowhere'' =
     (Inl (SystemExit 1), [MsgErrNotExists ''nowhere'']) \<and>
   exit_status (find_duplicate_files demo_env ''nowhere'') = 1 \<and>
   path_exists demo_env ''A/e1'' \<and> \<not> path_isdir demo_env ''A/e1'' \<and>
   find_duplicate_files demo_env ''A/e1'' = (Inl (SystemExit 1), [MsgErrNotDir ''A/e1'']) \<and>
   snd (main demo_env ''nowhere'' ''B'' ''out.xlsx'') = [MsgErrNoDir ''nowhere''] \<and>
   hash_file demo_env ''A/gone'' = Inl OSError \<and>
   stdout_ok demo_env \<and>
   exit_status (find_duplicate_files demo_env ''A'') = 0 \<and>
   exit_status (main demo_env ''A'' ''B'' ''out.xlsx'') = 0"
proof -
  note t1 = invalid_root_stops_before_scanning [of demo_env "''nowhere''" "''nowhere''" "''B''"
      "''out.xlsx''"]
  note t2 = invalid_root_stops_before_scanning [of demo_env "''A/e1''" "''A''" "''B''"
      "''out.xlsx''"]
  note t3 = invalid_root_stops_before_scanning [of demo_env "''A''" "''A''" "''B''"
      "''out.xlsx''"]
  have m: "\<forall>d. makedirs_ok demo_env d" and x: "\<forall>r p. export_ok demo_env r p"
    by (simp_all add: demo_env_def)
  have a: "find_duplicate_files demo_env ''nowhere'' =
      (Inl (SystemExit 1), [MsgErrNotExists ''nowhere''])"
    using t1 [THEN conjunct1] by (simp add: demo_env_simps)
  have b: "exit_status (find_duplicate_files demo_env ''nowhere'') = 1"
    using t1 [THEN conjunct2, THEN conjunct2, THEN conjunct1] by (simp add: demo_env_simps)
  have c: "snd (main demo_env ''nowhere'' ''B'' ''out.xlsx'') = [MsgErrNoDir ''nowhere'']"
    using t1 [THEN conjunct2, THEN conjunct2, THEN conjunct2, THEN conjunct1]
    by (simp add: demo_env_simps)
  have d: "find_duplicate_files demo_env ''A/e1'' =
      (Inl (SystemExit 1), [MsgErrNotDir ''A/e1''])"
    using t2 [THEN conjunct2, THEN conjunct1] by (simp add: demo_env_simps)
  note t3' = t3 [THEN conjunct2, THEN conjunct2, THEN conjunct2, THEN conjunct2, THEN conjunct2,
      THEN conjunct2]
  have e: "exit_status (find_duplicate_files demo_env ''A'') = 0"
    using t3' [THEN conjunct1] by (simp add: demo_env_simps demo_stdout_ok)
  have f: "exit_status (main demo_env ''A'' ''B'' ''out.xlsx'') = 0"
    using t3' [THEN conjunct2] m x by (simp add: demo_env_simps demo_stdout_ok)
  from a b c d e f show ?thesis
    by (simp add: demo_env_simps demo_failures demo_stdout_ok)
qed

end
